theory Spec2Isabelle
  imports Complex_Main
begin

text \<open>
  Inductive conformal predictors of \<^verbatim>\<open>nonconformist/icp.py\<close>: the calibration of
  \<^verbatim>\<open>BaseIcp\<close>, the p-values and prediction sets of \<^verbatim>\<open>IcpClassifier\<close> and the interval
  assembly of \<^verbatim>\<open>IcpRegressor\<close>, as functions on an explicit object state.  Methods
  and attributes keep their names, without the leading underscore of private methods.
\<close>

section \<open>Python errors and NumPy primitives\<close>

text \<open>
  The exceptions that the modelled code paths can raise.  A raise is a value:
  a function that can raise returns \<open>error + 'a\<close>, with \<open>Inl\<close> the error.
\<close>

datatype error = AttributeError | IndexError | KeyError | TypeError | ValueError

text \<open>\<^verbatim>\<open>np.unique(a)\<close>: the sorted distinct elements of \<open>a\<close>.\<close>

definition np_unique :: "'a::linorder list \<Rightarrow> 'a list" where
  "np_unique a = sort (remdups a)"

text \<open>
  \<^verbatim>\<open>a[idx]\<close> and \<^verbatim>\<open>a[idx, :]\<close> for a boolean mask \<open>idx\<close>: the rows of \<open>a\<close> at the
  positions where the mask is true.  NumPy (1.13 and later) raises IndexError when the
  length of the mask differs from the indexed dimension.
\<close>

definition bool_index :: "'a list \<Rightarrow> bool list \<Rightarrow> error + 'a list" where
  "bool_index a idx =
     (if length idx \<noteq> length a then Inl IndexError
      else Inr (map fst (filter snd (zip a idx))))"

text \<open>
  \<^verbatim>\<open>np.searchsorted(a, v, side)\<close>: NumPy's binary search over the whole array.
  With side \<open>left\<close> the loop moves the lower bound past \<open>mid\<close> when \<open>a[mid] < v\<close>,
  with side \<open>right\<close> when \<open>a[mid] \<le> v\<close>.
\<close>

datatype side = Left | Right

function binsearch :: "side \<Rightarrow> 'a::linorder list \<Rightarrow> 'a \<Rightarrow> nat \<Rightarrow> nat \<Rightarrow> nat" where
  "binsearch sd a v min_idx max_idx =
     (if min_idx < max_idx then
        (if (case sd of Left \<Rightarrow> a ! (min_idx + (max_idx - min_idx) div 2) < v
                      | Right \<Rightarrow> a ! (min_idx + (max_idx - min_idx) div 2) \<le> v)
         then binsearch sd a v (min_idx + (max_idx - min_idx) div 2 + 1) max_idx
         else binsearch sd a v min_idx (min_idx + (max_idx - min_idx) div 2))
      else min_idx)"
  by pat_completeness auto
termination
  by (relation "measure (\<lambda>(sd, a, v, lo, hi). hi - lo)") auto

declare binsearch.simps [simp del]

definition searchsorted :: "'a::linorder list \<Rightarrow> 'a \<Rightarrow> side \<Rightarrow> nat" where
  "searchsorted a v sd = binsearch sd a v 0 (length a)"

section \<open>The p-value of one (example, class) pair\<close>

text \<open>
  The body of the inner loop of \<^verbatim>\<open>IcpClassifier.predict\<close>.  \<open>stored\<close> is the score
  array of the pair's category as \<^verbatim>\<open>calibrate\<close> stored it; \<open>nc\<close> is the test score;
  \<open>u\<close> is the value drawn by \<^verbatim>\<open>np.random.uniform(0, 1, 1)\<close>, which is only used when
  smoothing is on.  Scores and p-values are real numbers here (the source computes
  with 64-bit floats; rounding is not modelled).
\<close>

definition n_cal_of :: "real list \<Rightarrow> int" where
  "n_cal_of stored = int (length (rev stored))"

definition n_gt_of :: "real list \<Rightarrow> real \<Rightarrow> int" where
  "n_gt_of stored nc = n_cal_of stored - int (searchsorted (rev stored) nc Right)"

definition n_eq_of :: "real list \<Rightarrow> real \<Rightarrow> int" where
  "n_eq_of stored nc =
     int (searchsorted (rev stored) nc Right) - int (searchsorted (rev stored) nc Left) + 1"

definition p_value :: "bool \<Rightarrow> real \<Rightarrow> real list \<Rightarrow> real \<Rightarrow> real" where
  "p_value smooth u stored nc =
     (if smooth
      then of_int (n_gt_of stored nc) / of_int (n_cal_of stored + 1)
           + (of_int (n_eq_of stored nc) * u) / of_int (n_cal_of stored + 1)
      else of_int (n_gt_of stored nc) / of_int (n_cal_of stored + 1)
           + of_int (n_eq_of stored nc) / of_int (n_cal_of stored + 1))"

section \<open>Predictor state\<close>

text \<open>
  \<^verbatim>\<open>self.cal_scores\<close> is a plain \<^verbatim>\<open>dict\<close> after a non-conditional calibration and a
  \<^verbatim>\<open>defaultdict(partial(np.ndarray, 0))\<close> after a conditional one.  Reading a missing
  key raises KeyError on the first; on the second it stores an empty array under the
  key and returns it.
\<close>

datatype 'c table = Dict "'c \<Rightarrow> real list option" | DefaultDict "'c \<Rightarrow> real list option"

fun table_get :: "'c table \<Rightarrow> 'c \<Rightarrow> (error + real list) \<times> 'c table" where
  "table_get (Dict m) k =
     (case m k of None \<Rightarrow> (Inl KeyError, Dict m) | Some v \<Rightarrow> (Inr v, Dict m))"
| "table_get (DefaultDict m) k =
     (case m k of None \<Rightarrow> (Inr [], DefaultDict (m(k \<mapsto> []))) | Some v \<Rightarrow> (Inr v, DefaultDict m))"

text \<open>
  The attributes of a predictor object.  \<open>'x\<close> is a row of the input matrix (all rows
  have the same number of features), \<open>'y\<close> a label, \<open>'c\<close> a category id.  An attribute
  that is \<^verbatim>\<open>None\<close> or not yet assigned is \<open>None\<close>.  \<open>calc_nc\<close> is
  \<^verbatim>\<open>self.nc_function.calc_nc\<close> of the fitted nonconformity function and \<open>nc_predict\<close>
  its \<^verbatim>\<open>predict\<close> (regression only); both are external to this code.  The condition
  function receives the pair \<^verbatim>\<open>(row, label)\<close>, where the regressor passes \<^verbatim>\<open>None\<close>
  as the label.  \<open>classes\<close> and \<open>smoothing\<close> are attributes of the classifier only.
\<close>

record ('x, 'y, 'c) icp =
  cal_x :: "'x list option"
  cal_y :: "'y list option"
  calc_nc :: "'x list \<Rightarrow> 'y list \<Rightarrow> real list"
  nc_predict :: "'x list \<Rightarrow> real list \<Rightarrow> real option \<Rightarrow> real list list"
  condition :: "'x \<times> 'y option \<Rightarrow> 'c"
  conditional :: bool
  categories :: "'c list option"
  cal_scores :: "'c table option"
  classes :: "'y list option"
  smoothing :: bool

text \<open>
  A method that mutates the object returns the exception it raised, if any, together
  with the object as the call left it: assignments made before a raise persist.
\<close>

type_synonym ('x, 'y, 'c) outcome = "error option \<times> ('x, 'y, 'c) icp"

definition BaseIcp_init ::
  "('x list \<Rightarrow> 'y list \<Rightarrow> real list) \<Rightarrow> ('x list \<Rightarrow> real list \<Rightarrow> real option \<Rightarrow> real list list) \<Rightarrow>
   ('x \<times> 'y option \<Rightarrow> 'c::zero) option \<Rightarrow> ('x, 'y, 'c) icp" where
  "BaseIcp_init nc ncp cond =
     \<lparr>cal_x = None, cal_y = None, calc_nc = nc, nc_predict = ncp,
      condition = (case cond of Some f \<Rightarrow> f | None \<Rightarrow> (\<lambda>x. 0)),
      conditional = (case cond of Some f \<Rightarrow> True | None \<Rightarrow> False),
      categories = None, cal_scores = None, classes = None, smoothing = True\<rparr>"

definition IcpClassifier_init ::
  "('x list \<Rightarrow> 'y list \<Rightarrow> real list) \<Rightarrow> ('x \<times> 'y option \<Rightarrow> 'c::zero) option \<Rightarrow> bool \<Rightarrow> ('x, 'y, 'c) icp" where
  "IcpClassifier_init nc cond smooth =
     (BaseIcp_init nc (\<lambda>x scores sg. []) cond)\<lparr>classes := None, smoothing := smooth\<rparr>"

definition IcpRegressor_init ::
  "('x list \<Rightarrow> 'y list \<Rightarrow> real list) \<Rightarrow> ('x list \<Rightarrow> real list \<Rightarrow> real option \<Rightarrow> real list list) \<Rightarrow>
   ('x \<times> 'y option \<Rightarrow> 'c::zero) option \<Rightarrow> ('x, 'y, 'c) icp" where
  "IcpRegressor_init nc ncp cond = BaseIcp_init nc ncp cond"

section \<open>Calibration\<close>

text \<open>\<^verbatim>\<open>BaseIcp._calibrate_hook\<close> does nothing; the classifier overrides it.\<close>

definition calibrate_hook :: "'x list \<Rightarrow> 'y list \<Rightarrow> bool \<Rightarrow> ('x, 'y, 'c) icp \<Rightarrow> ('x, 'y, 'c) icp" where
  "calibrate_hook x y increment s = s"

definition update_classes :: "'y::linorder list \<Rightarrow> bool \<Rightarrow> ('x, 'y, 'c) icp \<Rightarrow> ('x, 'y, 'c) icp" where
  "update_classes y increment s =
     (case classes s of
        None \<Rightarrow> s\<lparr>classes := Some (np_unique y)\<rparr>
      | Some cls \<Rightarrow>
          if \<not> increment then s\<lparr>classes := Some (np_unique y)\<rparr>
          else s\<lparr>classes := Some (np_unique (cls @ y))\<rparr>)"

definition classifier_calibrate_hook ::
  "'x list \<Rightarrow> 'y::linorder list \<Rightarrow> bool \<Rightarrow> ('x, 'y, 'c) icp \<Rightarrow> ('x, 'y, 'c) icp" where
  "classifier_calibrate_hook x y increment s = update_classes y increment s"

text \<open>\<^verbatim>\<open>np.vstack\<close> of two matrices of the same width and \<^verbatim>\<open>np.hstack\<close> of two vectors
  append the second to the first.\<close>

definition update_calibration_set ::
  "'x list \<Rightarrow> 'y list \<Rightarrow> bool \<Rightarrow> ('x, 'y, 'c) icp \<Rightarrow> ('x, 'y, 'c) icp" where
  "update_calibration_set x y increment s =
     (case (increment, cal_x s, cal_y s) of
        (True, Some cx, Some cy) \<Rightarrow> s\<lparr>cal_x := Some (cx @ x), cal_y := Some (cy @ y)\<rparr>
      | _ \<Rightarrow> s\<lparr>cal_x := Some x, cal_y := Some y\<rparr>)"

text \<open>
  The loop \<^verbatim>\<open>for cond in self.categories\<close> of the conditional branch.  \<open>category_map\<close>
  is the array of category ids that \<^verbatim>\<open>calibrate\<close> computed; \<open>cx\<close>, \<open>cy\<close> are
  \<^verbatim>\<open>self.cal_x\<close>, \<^verbatim>\<open>self.cal_y\<close>.  The table built so far is returned with the error
  when an indexing step raises.
\<close>

fun category_loop ::
  "('x list \<Rightarrow> 'y list \<Rightarrow> real list) \<Rightarrow> 'x list \<Rightarrow> 'y list \<Rightarrow> 'c list \<Rightarrow> 'c list \<Rightarrow>
   ('c \<Rightarrow> real list option) \<Rightarrow> error option \<times> ('c \<Rightarrow> real list option)" where
  "category_loop nc cx cy category_map [] tbl = (None, tbl)"
| "category_loop nc cx cy category_map (cond # rest) tbl =
     (case bool_index cx (map (\<lambda>k. k = cond) category_map) of
        Inl e \<Rightarrow> (Some e, tbl)
      | Inr xs \<Rightarrow>
          (case bool_index cy (map (\<lambda>k. k = cond) category_map) of
             Inl e \<Rightarrow> (Some e, tbl)
           | Inr ys \<Rightarrow>
               category_loop nc cx cy category_map rest (tbl(cond \<mapsto> rev (sort (nc xs ys))))))"

text \<open>
  \<^verbatim>\<open>BaseIcp.calibrate\<close>, with the hook of the object's class as a parameter.  The
  comprehension that builds \<open>category_map\<close> reads \<^verbatim>\<open>x[i, :]\<close> for \<^verbatim>\<open>i < y.size\<close>, which
  raises IndexError when \<open>x\<close> has fewer rows than \<open>y\<close> has entries.
\<close>

definition calibrate ::
  "('x list \<Rightarrow> 'y list \<Rightarrow> bool \<Rightarrow> ('x, 'y, 'c) icp \<Rightarrow> ('x, 'y, 'c) icp) \<Rightarrow>
   'x list \<Rightarrow> 'y list \<Rightarrow> bool \<Rightarrow> ('x, 'y, 'c::{zero,linorder}) icp \<Rightarrow> ('x, 'y, 'c) outcome" where
  "calibrate hook x y increment s0 =
     (let s1 = hook x y increment s0;
          s2 = update_calibration_set x y increment s1
      in if conditional s2 then
           (if length x < length y then (Some IndexError, s2)
            else
              (let category_map = map (\<lambda>(xi, yi). condition s2 (xi, Some yi)) (zip x y);
                   s3 = s2\<lparr>categories := Some (np_unique category_map),
                           cal_scores := Some (DefaultDict Map.empty)\<rparr>
               in case (cal_x s3, cal_y s3) of
                    (Some cx, Some cy) \<Rightarrow>
                      (case category_loop (calc_nc s3) cx cy category_map
                              (np_unique category_map) Map.empty of
                         (e, tbl) \<Rightarrow> (e, s3\<lparr>cal_scores := Some (DefaultDict tbl)\<rparr>))
                  | _ \<Rightarrow> (Some TypeError, s3)))
         else
           (case (cal_x s2, cal_y s2) of
              (Some cx, Some cy) \<Rightarrow>
                (None, s2\<lparr>categories := Some [0],
                          cal_scores := Some (Dict [0 \<mapsto> rev (sort (calc_nc s2 cx cy))])\<rparr>)
            | _ \<Rightarrow> (Some TypeError, s2\<lparr>categories := Some [0]\<rparr>)))"

definition IcpClassifier_calibrate ::
  "'x list \<Rightarrow> 'y::linorder list \<Rightarrow> bool \<Rightarrow> ('x, 'y, 'c::{zero,linorder}) icp \<Rightarrow> ('x, 'y, 'c) outcome" where
  "IcpClassifier_calibrate = calibrate classifier_calibrate_hook"

definition IcpRegressor_calibrate ::
  "'x list \<Rightarrow> 'y list \<Rightarrow> bool \<Rightarrow> ('x, 'y, 'c::{zero,linorder}) icp \<Rightarrow> ('x, 'y, 'c) outcome" where
  "IcpRegressor_calibrate = calibrate calibrate_hook"

section \<open>Classification\<close>

text \<open>
  \<^verbatim>\<open>IcpClassifier.predict\<close>.  \<open>u j i\<close> is the number that \<^verbatim>\<open>np.random.uniform(0, 1, 1)\<close>
  returns for test example \<open>j\<close> and class column \<open>i\<close>.  The inner loop runs over
  \<^verbatim>\<open>enumerate(test_nc_scores)\<close> and writes \<^verbatim>\<open>p[j, i]\<close>; the outer loop runs over
  \<^verbatim>\<open>enumerate(self.classes)\<close>.  Reading \<^verbatim>\<open>self.cal_scores\<close> raises AttributeError before
  the first calibration, and \<^verbatim>\<open>x[j, :]\<close> raises IndexError when the scorer returned
  more scores than \<open>x\<close> has rows.  The scorer is called once per class, on \<open>x\<close> and a
  label array that holds the class in every position (the source builds it as a float
  array; the conversion of the label is not modelled).  Entries of \<open>p\<close> that no
  iteration writes keep the 0 of \<^verbatim>\<open>np.zeros\<close>.
\<close>

datatype prediction = PValues "real list list" | Labels "bool list list"

fun example_loop ::
  "('x \<times> 'y option \<Rightarrow> 'c) \<Rightarrow> bool \<Rightarrow> (nat \<Rightarrow> nat \<Rightarrow> real) \<Rightarrow> 'x list \<Rightarrow> nat \<Rightarrow> 'y \<Rightarrow>
   (nat \<times> real) list \<Rightarrow> real list list \<Rightarrow> 'c table option \<Rightarrow>
   (error + real list list) \<times> 'c table option" where
  "example_loop cond smooth u x i c [] p tbl = (Inr p, tbl)"
| "example_loop cond smooth u x i c ((j, nc) # rest) p tbl =
     (case tbl of
        None \<Rightarrow> (Inl AttributeError, None)
      | Some t \<Rightarrow>
          if length x \<le> j then (Inl IndexError, Some t)
          else
            (case table_get t (cond (x ! j, Some c)) of
               (Inl e, t') \<Rightarrow> (Inl e, Some t')
             | (Inr stored, t') \<Rightarrow>
                 example_loop cond smooth u x i c rest
                   (p[j := (p ! j)[i := p_value smooth (u j i) stored nc]]) (Some t')))"

fun class_loop ::
  "('x list \<Rightarrow> 'y list \<Rightarrow> real list) \<Rightarrow> ('x \<times> 'y option \<Rightarrow> 'c) \<Rightarrow> bool \<Rightarrow> (nat \<Rightarrow> nat \<Rightarrow> real) \<Rightarrow>
   'x list \<Rightarrow> (nat \<times> 'y) list \<Rightarrow> real list list \<Rightarrow> 'c table option \<Rightarrow>
   (error + real list list) \<times> 'c table option" where
  "class_loop nc cond smooth u x [] p tbl = (Inr p, tbl)"
| "class_loop nc cond smooth u x ((i, c) # rest) p tbl =
     (case example_loop cond smooth u x i c
             (enumerate 0 (nc x (replicate (length x) c))) p tbl of
        (Inl e, tbl') \<Rightarrow> (Inl e, tbl')
      | (Inr p', tbl') \<Rightarrow> class_loop nc cond smooth u x rest p' tbl')"

definition IcpClassifier_predict ::
  "(nat \<Rightarrow> nat \<Rightarrow> real) \<Rightarrow> 'x list \<Rightarrow> real option \<Rightarrow> ('x, 'y, 'c) icp \<Rightarrow>
   (error + prediction) \<times> ('x, 'y, 'c) icp" where
  "IcpClassifier_predict u x significance s =
     (case classes s of
        None \<Rightarrow> (Inl AttributeError, s)
      | Some cls \<Rightarrow>
          (case class_loop (calc_nc s) (condition s) (smoothing s) u x (enumerate 0 cls)
                  (replicate (length x) (replicate (length cls) 0)) (cal_scores s) of
             (Inl e, tbl) \<Rightarrow> (Inl e, s\<lparr>cal_scores := tbl\<rparr>)
           | (Inr p, tbl) \<Rightarrow>
               (Inr (case significance of
                       Some sg \<Rightarrow> Labels (map (map (\<lambda>v. sg < v)) p)
                     | None \<Rightarrow> PValues p),
                s\<lparr>cal_scores := tbl\<rparr>)))"

section \<open>Regression\<close>

text \<open>
  \<^verbatim>\<open>IcpRegressor.predict\<close>.  A row of the result holds the two bounds of one example
  (\<^verbatim>\<open>[n, 2]\<close>), or the bounds for the 99 levels of the grid, flattened
  (\<^verbatim>\<open>[n, 2, 99]\<close>).  \<open>significance\<close> is a float or \<^verbatim>\<open>None\<close>.  The assignment
  \<^verbatim>\<open>prediction[idx, :] = p\<close> overwrites the rows selected by the mask with the rows
  of \<open>p\<close>, here for a \<open>p\<close> with one row of the right width per selected example
  (ValueError otherwise).
\<close>

fun assign_rows :: "'a list \<Rightarrow> bool list \<Rightarrow> 'a list \<Rightarrow> 'a list" where
  "assign_rows [] idx p = []"
| "assign_rows (r # rs) [] p = r # rs"
| "assign_rows (r # rs) (False # idx) p = r # assign_rows rs idx p"
| "assign_rows (r # rs) (True # idx) [] = r # rs"
| "assign_rows (r # rs) (True # idx) (q # qs) = q # assign_rows rs idx qs"

definition set_rows ::
  "real list list \<Rightarrow> bool list \<Rightarrow> real list list \<Rightarrow> nat \<Rightarrow> error + real list list" where
  "set_rows prediction idx p width =
     (if length p = length (filter id idx) \<and> list_all (\<lambda>row. length row = width) p
      then Inr (assign_rows prediction idx p) else Inl ValueError)"

fun regress_loop ::
  "('x, 'y, 'c) icp \<Rightarrow> 'x list \<Rightarrow> real option \<Rightarrow> nat \<Rightarrow> 'c list \<Rightarrow> 'c list \<Rightarrow> real list list \<Rightarrow>
   'c table option \<Rightarrow> (error + real list list) \<times> 'c table option" where
  "regress_loop s x significance width condition_map [] prediction tbl = (Inr prediction, tbl)"
| "regress_loop s x significance width condition_map (cnd # rest) prediction tbl =
     (if 0 < length (filter id (map (\<lambda>k. k = cnd) condition_map)) then
        (case tbl of
           None \<Rightarrow> (Inl AttributeError, None)
         | Some t \<Rightarrow>
             (case table_get t cnd of
                (Inl e, t') \<Rightarrow> (Inl e, Some t')
              | (Inr scores, t') \<Rightarrow>
                  (case set_rows prediction (map (\<lambda>k. k = cnd) condition_map)
                          (nc_predict s
                             (map fst (filter snd (zip x (map (\<lambda>k. k = cnd) condition_map))))
                             scores significance) width of
                     Inl e \<Rightarrow> (Inl e, Some t')
                   | Inr prediction' \<Rightarrow>
                       regress_loop s x significance width condition_map rest prediction'
                         (Some t'))))
      else regress_loop s x significance width condition_map rest prediction tbl)"

definition IcpRegressor_predict ::
  "'x list \<Rightarrow> real option \<Rightarrow> ('x, 'y, 'c) icp \<Rightarrow> (error + real list list) \<times> ('x, 'y, 'c) icp" where
  "IcpRegressor_predict x significance s =
     (let n_significance = (case significance of None \<Rightarrow> 99 | Some sg \<Rightarrow> (1::nat));
          width = (if 1 < n_significance then 2 * n_significance else 2);
          prediction = replicate (length x) (replicate width 0);
          condition_map = map (\<lambda>xi. condition s (xi, None)) x
      in case categories s of
           None \<Rightarrow> (Inl AttributeError, s)
         | Some cats \<Rightarrow>
             (case regress_loop s x significance width condition_map cats prediction
                     (cal_scores s) of
                (r, tbl) \<Rightarrow> (r, s\<lparr>cal_scores := tbl\<rparr>)))"

section \<open>Derived notions used in the statements\<close>

text \<open>What reading key \<open>k\<close> of the score table returns, without the side effect.\<close>

fun table_val :: "'c table \<Rightarrow> 'c \<Rightarrow> error + real list" where
  "table_val (Dict m) k = (case m k of None \<Rightarrow> Inl KeyError | Some v \<Rightarrow> Inr v)"
| "table_val (DefaultDict m) k = (case m k of None \<Rightarrow> Inr [] | Some v \<Rightarrow> Inr v)"

fun table_map :: "'c table \<Rightarrow> ('c \<Rightarrow> real list option)" where
  "table_map (Dict m) = m"
| "table_map (DefaultDict m) = m"

text \<open>The array that a successful read of key \<open>k\<close> returns.\<close>

definition stored_scores :: "'c table \<Rightarrow> 'c \<Rightarrow> real list" where
  "stored_scores t k = (case table_map t k of None \<Rightarrow> [] | Some v \<Rightarrow> v)"

text \<open>The sum of the sizes of the score arrays stored for the categories of the object.\<close>

definition score_total :: "('x, 'y, 'c) icp \<Rightarrow> nat" where
  "score_total s =
     (case (categories s, cal_scores s) of
        (Some cats, Some t) \<Rightarrow>
          sum_list (map (\<lambda>k. case table_map t k of None \<Rightarrow> 0 | Some v \<Rightarrow> length v) cats)
      | _ \<Rightarrow> 0)"

definition cal_size :: "('x, 'y, 'c) icp \<Rightarrow> nat" where
  "cal_size s = (case cal_y s of None \<Rightarrow> 0 | Some cy \<Rightarrow> length cy)"

text \<open>
  The score array that the documentation of \<^verbatim>\<open>calibrate\<close> describes for category \<open>k\<close>:
  the scores of the examples of the whole calibration set \<open>(cx, cy)\<close> whose category is
  \<open>k\<close>, in descending order.
\<close>

definition documented_scores ::
  "('x list \<Rightarrow> 'y list \<Rightarrow> real list) \<Rightarrow> ('x \<times> 'y option \<Rightarrow> 'c) \<Rightarrow> 'x list \<Rightarrow> 'y list \<Rightarrow> 'c \<Rightarrow> real list" where
  "documented_scores nc cond cx cy k =
     rev (sort (nc (map fst (filter (\<lambda>(xi, yi). cond (xi, Some yi) = k) (zip cx cy)))
                   (map snd (filter (\<lambda>(xi, yi). cond (xi, Some yi) = k) (zip cx cy)))))"

section \<open>Fixtures of the worked examples\<close>

text \<open>
  A scorer whose nonconformity score is the input itself, a condition function that
  takes the label as the category, a randomness source that always draws 0, and an
  interval routine that returns one pair of bounds per example.
\<close>

fun score_by_input :: "real list \<Rightarrow> int list \<Rightarrow> real list" where
  "score_by_input xs ys = xs"

fun category_by_label :: "real \<times> int option \<Rightarrow> int" where
  "category_by_label (x, Some y) = y"
| "category_by_label (x, None) = 0"

fun zero_draw :: "nat \<Rightarrow> nat \<Rightarrow> real" where
  "zero_draw j i = 0"

fun unit_band :: "real list \<Rightarrow> real list \<Rightarrow> real option \<Rightarrow> real list list" where
  "unit_band [] scores sg = []"
| "unit_band (xi # xs) scores sg = [xi - 1, xi + 1] # unit_band xs scores sg"

definition scenario_classifier :: "(real, int, int) icp" where
  "scenario_classifier =
     snd (IcpClassifier_calibrate [1/10, 4/10, 9/10, 4/10] [0, 0, 0, 0] False
            (IcpClassifier_init score_by_input None False))"

definition mondrian_classifier :: "(real, int, int) icp" where
  "mondrian_classifier =
     snd (IcpClassifier_calibrate [1/10, 2/10] [0, 1] False
            (IcpClassifier_init score_by_input (Some category_by_label) False))"

definition scenario_regressor :: "(real, int, int) icp" where
  "scenario_regressor =
     snd (IcpRegressor_calibrate [1, 2, 4] [1, 3, 3] False
            (IcpRegressor_init score_by_input unit_band None))"

text \<open>
  A condition function that splits on the input (category 0 below one half, category 1
  from there on), and a conditional classifier calibrated on two examples that both
  fall into category 0.
\<close>

fun category_by_input :: "real \<times> int option \<Rightarrow> int" where
  "category_by_input (x, y) = (if x < 1/2 then 0 else 1)"

definition split_classifier :: "(real, int, int) icp" where
  "split_classifier =
     snd (IcpClassifier_calibrate [1/10, 2/10] [0, 1] False
            (IcpClassifier_init score_by_input (Some category_by_input) False))"

section \<open>Evaluation rules\<close>

lemmas icp_unfold =
  IcpClassifier_init_def IcpRegressor_init_def BaseIcp_init_def
  IcpClassifier_calibrate_def IcpRegressor_calibrate_def calibrate_def
  classifier_calibrate_hook_def calibrate_hook_def update_classes_def
  update_calibration_set_def np_unique_def bool_index_def
  IcpClassifier_predict_def IcpRegressor_predict_def set_rows_def
  p_value_def n_gt_of_def n_eq_of_def n_cal_of_def searchsorted_def binsearch.simps
  enumerate_eq_zip Let_def

section \<open>Facts about the NumPy primitives\<close>

lemma np_unique_props:
  "sorted (np_unique a)" "distinct (np_unique a)" "set (np_unique a) = set a"
  by (simp_all add: np_unique_def)

lemma assign_rows_same_length:
  "length pr = length p \<Longrightarrow> assign_rows pr (replicate (length p) True) p = p"
  by (induction pr p rule: list_induct2) auto

lemma assign_rows_all:
  "length p = n \<Longrightarrow> length pr = n \<Longrightarrow> assign_rows pr (replicate n True) p = p"
  using assign_rows_same_length [of pr p] by simp

lemma filter_all_true: "map fst (filter snd (zip x (replicate (length x) True))) = x"
  by (induction x) auto

lemma filter_id_replicate: "filter id (replicate n True) = replicate n True"
  by (induction n) auto

section \<open>Binary search\<close>

text \<open>The result of the search lies between the bounds it is started with.\<close>

lemma binsearch_bounds:
  "lo \<le> hi \<Longrightarrow> lo \<le> binsearch sd a v lo hi \<and> binsearch sd a v lo hi \<le> hi"
proof (induction sd a v lo hi rule: binsearch.induct)
  case (1 sd a v lo hi)
  show ?case
  proof (cases "lo < hi")
    case False
    with "1.prems" show ?thesis by (simp add: binsearch.simps)
  next
    case True
    let ?mid = "lo + (hi - lo) div 2"
    have mid: "lo \<le> ?mid" "?mid < hi" using True by auto
    show ?thesis
    proof (cases "case sd of Left \<Rightarrow> a ! ?mid < v | Right \<Rightarrow> a ! ?mid \<le> v")
      case go_right: True
      have "?mid + 1 \<le> binsearch sd a v (?mid + 1) hi \<and> binsearch sd a v (?mid + 1) hi \<le> hi"
        using "1.IH"(1) [OF True go_right] mid by simp
      moreover have "binsearch sd a v lo hi = binsearch sd a v (?mid + 1) hi"
        using True go_right by (subst binsearch.simps) simp
      ultimately show ?thesis using mid by simp
    next
      case go_left: False
      have "lo \<le> binsearch sd a v lo ?mid \<and> binsearch sd a v lo ?mid \<le> ?mid"
        using "1.IH"(2) [OF True go_left] mid by simp
      moreover have "binsearch sd a v lo hi = binsearch sd a v lo ?mid"
        using True go_left by (subst binsearch.simps) simp
      ultimately show ?thesis using mid by simp
    qed
  qed
qed

lemma binsearch_left_le_right:
  "lo \<le> hi \<Longrightarrow> binsearch Left a v lo hi \<le> binsearch Right a v lo hi"
proof (induction "hi - lo" arbitrary: lo hi rule: less_induct)
  case less
  show ?case
  proof (cases "lo < hi")
    case False
    then show ?thesis by (simp add: binsearch.simps)
  next
    case True
    let ?mid = "lo + (hi - lo) div 2"
    have mid: "lo \<le> ?mid" "?mid < hi" using True by auto
    consider (lt) "a ! ?mid < v" | (eq) "a ! ?mid = v" | (gt) "v < a ! ?mid"
      by (metis not_less_iff_gr_or_eq)
    then show ?thesis
    proof cases
      case lt
      have l: "binsearch Left a v lo hi = binsearch Left a v (?mid + 1) hi"
        using True lt by (subst binsearch.simps) simp
      have "a ! ?mid \<le> v" using lt by simp
      then have r: "binsearch Right a v lo hi = binsearch Right a v (?mid + 1) hi"
        using True by (subst binsearch.simps) simp
      have "binsearch Left a v (?mid + 1) hi \<le> binsearch Right a v (?mid + 1) hi"
        using less(1) [of hi "?mid + 1"] mid by simp
      with l r show ?thesis by simp
    next
      case eq
      have l: "binsearch Left a v lo hi = binsearch Left a v lo ?mid"
        using True eq by (subst binsearch.simps) simp
      have r: "binsearch Right a v lo hi = binsearch Right a v (?mid + 1) hi"
        using True eq by (subst binsearch.simps) simp
      have "binsearch Left a v lo ?mid \<le> ?mid"
        using binsearch_bounds [of lo ?mid Left a v] by simp
      moreover have "?mid + 1 \<le> binsearch Right a v (?mid + 1) hi"
        using binsearch_bounds [of "?mid + 1" hi Right a v] mid by simp
      ultimately show ?thesis using l r by simp
    next
      case gt
      have ngt: "\<not> a ! ?mid < v" "\<not> a ! ?mid \<le> v" using gt by simp_all
      have l: "binsearch Left a v lo hi = binsearch Left a v lo ?mid"
        using True ngt by (subst binsearch.simps) simp
      have r: "binsearch Right a v lo hi = binsearch Right a v lo ?mid"
        using True ngt by (subst binsearch.simps) simp
      have "binsearch Left a v lo ?mid \<le> binsearch Right a v lo ?mid"
        using less(1) [of ?mid lo] mid by simp
      with l r show ?thesis by simp
    qed
  qed
qed

text \<open>On a sorted array the search returns the insertion point.\<close>

lemma binsearch_left_sorted:
  assumes "sorted a" "lo \<le> hi" "hi \<le> length a"
    and "\<forall>i<lo. a ! i < v" and "\<forall>i. hi \<le> i \<and> i < length a \<longrightarrow> v \<le> a ! i"
  shows "(\<forall>i<binsearch Left a v lo hi. a ! i < v)
       \<and> (\<forall>i. binsearch Left a v lo hi \<le> i \<and> i < length a \<longrightarrow> v \<le> a ! i)"
  using assms
proof (induction "hi - lo" arbitrary: lo hi rule: less_induct)
  case less
  show ?case
  proof (cases "lo < hi")
    case False
    then have "binsearch Left a v lo hi = lo" by (simp add: binsearch.simps)
    moreover have "lo = hi" using False less.prems by simp
    ultimately show ?thesis using less.prems by simp
  next
    case True
    let ?mid = "lo + (hi - lo) div 2"
    have mid: "lo \<le> ?mid" "?mid < hi" using True by auto
    show ?thesis
    proof (cases "a ! ?mid < v")
      case lt: True
      have l: "binsearch Left a v lo hi = binsearch Left a v (?mid + 1) hi"
        using True lt by (subst binsearch.simps) simp
      have below: "\<forall>i<?mid + 1. a ! i < v"
      proof (intro allI impI)
        fix i assume "i < ?mid + 1"
        then have "a ! i \<le> a ! ?mid"
          using \<open>sorted a\<close> mid less.prems(3) by (simp add: sorted_iff_nth_mono)
        with lt show "a ! i < v" by simp
      qed
      show ?thesis
        unfolding l
        using less(1) [of hi "?mid + 1"] mid less.prems below by simp
    next
      case ge: False
      have l: "binsearch Left a v lo hi = binsearch Left a v lo ?mid"
        using True ge by (subst binsearch.simps) simp
      have above: "\<forall>i. ?mid \<le> i \<and> i < length a \<longrightarrow> v \<le> a ! i"
      proof (intro allI impI)
        fix i assume "?mid \<le> i \<and> i < length a"
        then have "a ! ?mid \<le> a ! i"
          using \<open>sorted a\<close> by (simp add: sorted_iff_nth_mono)
        with ge show "v \<le> a ! i" by simp
      qed
      show ?thesis
        unfolding l
        using less(1) [of ?mid lo] mid less.prems above by simp
    qed
  qed
qed

lemma binsearch_right_sorted:
  assumes "sorted a" "lo \<le> hi" "hi \<le> length a"
    and "\<forall>i<lo. a ! i \<le> v" and "\<forall>i. hi \<le> i \<and> i < length a \<longrightarrow> v < a ! i"
  shows "(\<forall>i<binsearch Right a v lo hi. a ! i \<le> v)
       \<and> (\<forall>i. binsearch Right a v lo hi \<le> i \<and> i < length a \<longrightarrow> v < a ! i)"
  using assms
proof (induction "hi - lo" arbitrary: lo hi rule: less_induct)
  case less
  show ?case
  proof (cases "lo < hi")
    case False
    then have "binsearch Right a v lo hi = lo" by (simp add: binsearch.simps)
    moreover have "lo = hi" using False less.prems by simp
    ultimately show ?thesis using less.prems by simp
  next
    case True
    let ?mid = "lo + (hi - lo) div 2"
    have mid: "lo \<le> ?mid" "?mid < hi" using True by auto
    show ?thesis
    proof (cases "a ! ?mid \<le> v")
      case le: True
      have l: "binsearch Right a v lo hi = binsearch Right a v (?mid + 1) hi"
        using True le by (subst binsearch.simps) simp
      have below: "\<forall>i<?mid + 1. a ! i \<le> v"
      proof (intro allI impI)
        fix i assume "i < ?mid + 1"
        then have "a ! i \<le> a ! ?mid"
          using \<open>sorted a\<close> mid less.prems(3) by (simp add: sorted_iff_nth_mono)
        with le show "a ! i \<le> v" by simp
      qed
      show ?thesis
        unfolding l
        using less(1) [of hi "?mid + 1"] mid less.prems below by simp
    next
      case gt: False
      have l: "binsearch Right a v lo hi = binsearch Right a v lo ?mid"
        using True gt by (subst binsearch.simps) simp
      have above: "\<forall>i. ?mid \<le> i \<and> i < length a \<longrightarrow> v < a ! i"
      proof (intro allI impI)
        fix i assume "?mid \<le> i \<and> i < length a"
        then have "a ! ?mid \<le> a ! i"
          using \<open>sorted a\<close> by (simp add: sorted_iff_nth_mono)
        with gt show "v < a ! i" by simp
      qed
      show ?thesis
        unfolding l
        using less(1) [of ?mid lo] mid less.prems above by simp
    qed
  qed
qed

lemma length_filter_prefix:
  assumes "r \<le> length a" "\<forall>i<r. P (a ! i)" "\<forall>i. r \<le> i \<and> i < length a \<longrightarrow> \<not> P (a ! i)"
  shows "length (filter P a) = r"
proof -
  have "filter P (take r a) = take r a"
    using assms by (auto simp: filter_id_conv in_set_conv_nth)
  moreover have "filter P (drop r a) = []"
    using assms by (auto simp: filter_empty_conv in_set_conv_nth)
  moreover have "filter P a = filter P (take r a) @ filter P (drop r a)"
    by (metis append_take_drop_id filter_append)
  ultimately show ?thesis using assms(1) by simp
qed

lemma searchsorted_left_count:
  assumes "sorted a"
  shows "searchsorted a v Left = length (filter (\<lambda>e. e < v) a)"
proof -
  let ?r = "binsearch Left a v 0 (length a)"
  have b: "?r \<le> length a" using binsearch_bounds [of 0 "length a" Left a v] by simp
  have "(\<forall>i<?r. a ! i < v) \<and> (\<forall>i. ?r \<le> i \<and> i < length a \<longrightarrow> v \<le> a ! i)"
    by (rule binsearch_left_sorted) (use assms in auto)
  then have "length (filter (\<lambda>e. e < v) a) = ?r"
    using b by (intro length_filter_prefix) (auto simp: not_less)
  then show ?thesis by (simp add: searchsorted_def)
qed

lemma searchsorted_right_count:
  assumes "sorted a"
  shows "searchsorted a v Right = length (filter (\<lambda>e. e \<le> v) a)"
proof -
  let ?r = "binsearch Right a v 0 (length a)"
  have b: "?r \<le> length a" using binsearch_bounds [of 0 "length a" Right a v] by simp
  have "(\<forall>i<?r. a ! i \<le> v) \<and> (\<forall>i. ?r \<le> i \<and> i < length a \<longrightarrow> v < a ! i)"
    by (rule binsearch_right_sorted) (use assms in auto)
  then have "length (filter (\<lambda>e. e \<le> v) a) = ?r"
    using b by (intro length_filter_prefix) (auto simp: not_le)
  then show ?thesis by (simp add: searchsorted_def)
qed

section \<open>Ranks and the range of a p-value\<close>

lemma searchsorted_le_length: "searchsorted a v sd \<le> length a"
  using binsearch_bounds [of 0 "length a" sd a v] by (simp add: searchsorted_def)

lemma searchsorted_left_le_right: "searchsorted a v Left \<le> searchsorted a v Right"
  using binsearch_left_le_right [of 0 "length a" a v] by (simp add: searchsorted_def)

lemma n_gt_nonneg: "0 \<le> n_gt_of stored nc"
  using searchsorted_le_length [of "rev stored" nc Right]
  by (simp add: n_gt_of_def n_cal_of_def)

lemma n_eq_pos: "1 \<le> n_eq_of stored nc"
  using searchsorted_left_le_right [of "rev stored" nc]
  by (simp add: n_eq_of_def)

lemma n_gt_plus_n_eq: "n_gt_of stored nc + n_eq_of stored nc \<le> n_cal_of stored + 1"
  by (simp add: n_gt_of_def n_eq_of_def)

lemma n_cal_nonneg: "0 \<le> n_cal_of stored"
  by (simp add: n_cal_of_def)

lemma p_value_range:
  assumes "0 \<le> u" "u \<le> 1"
  shows "0 \<le> p_value smooth u stored nc \<and> p_value smooth u stored nc \<le> 1"
proof -
  let ?g = "real_of_int (n_gt_of stored nc)"
  let ?e = "real_of_int (n_eq_of stored nc)"
  let ?n = "real_of_int (n_cal_of stored + 1)"
  have g: "0 \<le> ?g" using n_gt_nonneg [of stored nc] by simp
  have e: "0 \<le> ?e" using n_eq_pos [of stored nc] by simp
  have n: "0 < ?n" using n_cal_nonneg [of stored] by simp
  have sum: "?g + ?e \<le> ?n"
    using n_gt_plus_n_eq [of stored nc] by (metis of_int_add of_int_le_iff)
  have eu: "0 \<le> ?e * u" "?e * u \<le> ?e"
    using e assms by (simp_all add: mult_left_le)
  have form: "p_value smooth u stored nc = (?g + (if smooth then ?e * u else ?e)) / ?n"
    by (simp add: p_value_def add_divide_distrib)
  have "0 \<le> ?g + (if smooth then ?e * u else ?e)" using g e eu by simp
  moreover have "?g + (if smooth then ?e * u else ?e) \<le> ?n" using sum eu by simp
  ultimately show ?thesis unfolding form using n by simp
qed

lemma length_filter_le_split:
  "length (filter (\<lambda>e. e \<le> v) xs) =
     length (filter (\<lambda>e. e < v) xs) + length (filter (\<lambda>e. e = v) (xs :: 'a::linorder list))"
  by (induction xs) auto

lemma length_filter_gt_compl:
  "length (filter (\<lambda>e. v < e) xs) + length (filter (\<lambda>e. e \<le> v) (xs :: 'a::linorder list)) = length xs"
  by (induction xs) auto

lemma length_filter_rev: "length (filter P (rev xs)) = length (filter P xs)"
  by (simp add: rev_filter [symmetric])

lemma rank_counts:
  assumes "sorted (rev stored)"
  shows "searchsorted (rev stored) nc Left = length (filter (\<lambda>e. e < nc) stored)"
    and "searchsorted (rev stored) nc Right = length (filter (\<lambda>e. e \<le> nc) stored)"
    and "n_gt_of stored nc = int (length (filter (\<lambda>e. nc < e) stored))"
    and "n_eq_of stored nc = int (length (filter (\<lambda>e. e = nc) stored)) + 1"
proof -
  show l: "searchsorted (rev stored) nc Left = length (filter (\<lambda>e. e < nc) stored)"
    using searchsorted_left_count [OF assms, of nc] by (simp add: length_filter_rev)
  show r: "searchsorted (rev stored) nc Right = length (filter (\<lambda>e. e \<le> nc) stored)"
    using searchsorted_right_count [OF assms, of nc] by (simp add: length_filter_rev)
  show "n_gt_of stored nc = int (length (filter (\<lambda>e. nc < e) stored))"
    using length_filter_gt_compl [of nc stored] by (simp add: n_gt_of_def n_cal_of_def r)
  show "n_eq_of stored nc = int (length (filter (\<lambda>e. e = nc) stored)) + 1"
    using length_filter_le_split [of nc stored] by (simp add: n_eq_of_def l r)
qed

lemma p_value_empty: "p_value False u [] nc = 1"
  by (simp add: p_value_def n_gt_of_def n_eq_of_def n_cal_of_def searchsorted_def binsearch.simps)

lemma p_value_unsmoothed: "p_value False u stored nc = p_value False u' stored nc"
  by (simp add: p_value_def)

section \<open>Reading the score table\<close>

lemma table_get_val:
  "table_get t k = (r, t') \<Longrightarrow> r = table_val t k \<and> table_val t' = table_val t"
  by (cases t) (auto split: option.splits simp: fun_eq_iff)

section \<open>The loops of the classifier keep every entry in the unit interval\<close>

lemma set_matrix_update:
  assumes "\<forall>row\<in>set p. \<forall>v\<in>set row. P v" "P w"
  shows "\<forall>row\<in>set (p[j := (p ! j)[i := w]]). \<forall>v\<in>set row. P v"
proof (cases "j < length p")
  case False
  then have "p[j := (p ! j)[i := w]] = p" by (simp add: list_update_beyond)
  then show ?thesis using assms(1) by simp
next
  case True
  then have pj: "p ! j \<in> set p" by simp
  have "\<forall>v\<in>set ((p ! j)[i := w]). P v"
    using assms pj set_update_subset_insert [of "p ! j" i w] by blast
  then show ?thesis
    using assms(1) set_update_subset_insert [of p j "(p ! j)[i := w]"] by blast
qed

lemma example_loop_range:
  assumes "\<forall>j i. 0 \<le> u j i \<and> u j i \<le> 1"
  shows "\<forall>row\<in>set p. \<forall>v\<in>set row. 0 \<le> v \<and> v \<le> 1 \<Longrightarrow>
         example_loop cond smooth u x i c js p tbl = (Inr p', tbl') \<Longrightarrow>
         \<forall>row\<in>set p'. \<forall>v\<in>set row. 0 \<le> v \<and> v \<le> (1::real)"
proof (induction js arbitrary: p tbl)
  case Nil
  then show ?case by simp
next
  case (Cons a js)
  obtain j nc where a: "a = (j, nc)" by (cases a)
  from Cons.prems(2) obtain t where t: "tbl = Some t"
    by (cases tbl) (auto simp: a)
  from Cons.prems(2) have jx: "j < length x"
    by (auto simp: a t split: if_splits)
  obtain r t1 where g: "table_get t (cond (x ! j, Some c)) = (r, t1)"
    by (cases "table_get t (cond (x ! j, Some c))")
  from Cons.prems(2) jx obtain stored where r: "r = Inr stored"
    by (cases r) (auto simp: a t g)
  let ?p1 = "p[j := (p ! j)[i := p_value smooth (u j i) stored nc]]"
  have rec: "example_loop cond smooth u x i c js ?p1 (Some t1) = (Inr p', tbl')"
    using Cons.prems(2) jx by (simp add: a t g r)
  have "0 \<le> p_value smooth (u j i) stored nc \<and> p_value smooth (u j i) stored nc \<le> 1"
    using assms by (intro p_value_range) auto
  then have "\<forall>row\<in>set ?p1. \<forall>v\<in>set row. 0 \<le> v \<and> v \<le> 1"
    using Cons.prems(1) by (intro set_matrix_update) auto
  then show ?case using Cons.IH rec by blast
qed

lemma class_loop_range:
  assumes "\<forall>j i. 0 \<le> u j i \<and> u j i \<le> 1"
  shows "\<forall>row\<in>set p. \<forall>v\<in>set row. 0 \<le> v \<and> v \<le> 1 \<Longrightarrow>
         class_loop nc cond smooth u x cs p tbl = (Inr p', tbl') \<Longrightarrow>
         \<forall>row\<in>set p'. \<forall>v\<in>set row. 0 \<le> v \<and> v \<le> (1::real)"
proof (induction cs arbitrary: p tbl)
  case Nil
  then show ?case by simp
next
  case (Cons a cs)
  obtain i c where a: "a = (i, c)" by (cases a)
  obtain r tbl1 where e: "example_loop cond smooth u x i c
      (enumerate 0 (nc x (replicate (length x) c))) p tbl = (r, tbl1)"
    by (cases "example_loop cond smooth u x i c (enumerate 0 (nc x (replicate (length x) c))) p tbl")
  from Cons.prems(2) obtain p1 where r: "r = Inr p1"
    by (cases r) (auto simp: a e)
  have rec: "class_loop nc cond smooth u x cs p1 tbl1 = (Inr p', tbl')"
    using Cons.prems(2) by (simp add: a e r)
  have "\<forall>row\<in>set p1. \<forall>v\<in>set row. 0 \<le> v \<and> v \<le> 1"
    using example_loop_range [OF assms Cons.prems(1) e [unfolded r]] .
  then show ?case using Cons.IH rec by blast
qed

lemma predict_range:
  assumes "\<forall>j i. 0 \<le> u j i \<and> u j i \<le> 1"
    and "fst (IcpClassifier_predict u x None s) = Inr (PValues p)"
  shows "\<forall>row\<in>set p. \<forall>v\<in>set row. 0 \<le> v \<and> v \<le> 1"
proof -
  from assms(2) obtain cls where cls: "classes s = Some cls"
    by (cases "classes s") (auto simp: IcpClassifier_predict_def)
  let ?p0 = "replicate (length x) (replicate (length cls) (0::real))"
  obtain r tbl where l: "class_loop (calc_nc s) (condition s) (smoothing s) u x
      (enumerate 0 cls) ?p0 (cal_scores s) = (r, tbl)"
    by (cases "class_loop (calc_nc s) (condition s) (smoothing s) u x (enumerate 0 cls) ?p0 (cal_scores s)")
  from assms(2) have r: "r = Inr p"
    by (cases r) (auto simp: IcpClassifier_predict_def cls l)
  have "\<forall>row\<in>set ?p0. \<forall>v\<in>set row. 0 \<le> v \<and> v \<le> 1" by auto
  then show ?thesis
    using class_loop_range [OF assms(1) _ l [unfolded r]] by blast
qed

section \<open>The loops depend on the table only through what its reads return\<close>

lemma example_loop_table:
  "map_option table_val (snd (example_loop cond smooth u x i c js p tbl)) = map_option table_val tbl"
proof (induction js arbitrary: p tbl)
  case Nil
  then show ?case by simp
next
  case (Cons a js)
  obtain j nc where a: "a = (j, nc)" by (cases a)
  show ?case
  proof (cases tbl)
    case None
    then show ?thesis by (simp add: a)
  next
    case (Some t)
    obtain r t1 where g: "table_get t (cond (x ! j, Some c)) = (r, t1)"
      by (cases "table_get t (cond (x ! j, Some c))")
    have v: "table_val t1 = table_val t" using table_get_val [OF g] by simp
    show ?thesis
      using Cons.IH [of _ "Some t1"] v by (cases r) (simp_all add: a Some g)
  qed
qed

lemma example_loop_cong:
  assumes "map_option table_val a = map_option table_val b" "\<not> smooth \<or> u = u'"
  shows "fst (example_loop cond smooth u x i c js p a) = fst (example_loop cond smooth u' x i c js p b)"
  using assms(1)
proof (induction js arbitrary: p a b)
  case Nil
  then show ?case by simp
next
  case (Cons e js)
  obtain j nc where e: "e = (j, nc)" by (cases e)
  show ?case
  proof (cases a)
    case None
    then have "b = None" using Cons.prems by simp
    with None show ?thesis by (simp add: e)
  next
    case (Some t)
    then obtain t' where b: "b = Some t'" and tv: "table_val t = table_val t'"
      using Cons.prems by (cases b) auto
    obtain r t1 where g: "table_get t (cond (x ! j, Some c)) = (r, t1)"
      by (cases "table_get t (cond (x ! j, Some c))")
    obtain r' t1' where g': "table_get t' (cond (x ! j, Some c)) = (r', t1')"
      by (cases "table_get t' (cond (x ! j, Some c))")
    have rr: "r' = r" and v: "table_val t1 = table_val t1'"
      using table_get_val [OF g] table_get_val [OF g'] tv by simp_all
    have pv: "\<And>stored. p_value smooth (u j i) stored nc = p_value smooth (u' j i) stored nc"
      using assms(2) by (auto simp: p_value_def)
    show ?thesis
    proof (cases r)
      case (Inl err)
      then show ?thesis by (simp add: e Some b g g' rr)
    next
      case (Inr stored)
      have "fst (example_loop cond smooth u x i c js
                  (p[j := (p ! j)[i := p_value smooth (u j i) stored nc]]) (Some t1))
          = fst (example_loop cond smooth u' x i c js
                  (p[j := (p ! j)[i := p_value smooth (u j i) stored nc]]) (Some t1'))"
        using Cons.IH [of "Some t1" "Some t1'"] v by simp
      then show ?thesis by (simp add: e Some b g g' rr Inr pv)
    qed
  qed
qed

lemma class_loop_table:
  "map_option table_val (snd (class_loop nc cond smooth u x cs p tbl)) = map_option table_val tbl"
proof (induction cs arbitrary: p tbl)
  case Nil
  then show ?case by simp
next
  case (Cons a cs)
  obtain i c where a: "a = (i, c)" by (cases a)
  obtain r tbl1 where e: "example_loop cond smooth u x i c
      (enumerate 0 (nc x (replicate (length x) c))) p tbl = (r, tbl1)"
    by (cases "example_loop cond smooth u x i c (enumerate 0 (nc x (replicate (length x) c))) p tbl")
  have t1: "map_option table_val tbl1 = map_option table_val tbl"
    using example_loop_table [of cond smooth u x i c "enumerate 0 (nc x (replicate (length x) c))" p tbl] e
    by simp
  show ?case using Cons.IH [of _ tbl1] t1 by (cases r) (simp_all add: a e)
qed

lemma class_loop_cong:
  assumes "map_option table_val a = map_option table_val b" "\<not> smooth \<or> u = u'"
  shows "fst (class_loop nc cond smooth u x cs p a) = fst (class_loop nc cond smooth u' x cs p b)"
  using assms(1)
proof (induction cs arbitrary: p a b)
  case Nil
  then show ?case by simp
next
  case (Cons e cs)
  obtain i c where e: "e = (i, c)" by (cases e)
  let ?js = "enumerate 0 (nc x (replicate (length x) c))"
  obtain r ta where l: "example_loop cond smooth u x i c ?js p a = (r, ta)"
    by (cases "example_loop cond smooth u x i c ?js p a")
  obtain r' tb where l': "example_loop cond smooth u' x i c ?js p b = (r', tb)"
    by (cases "example_loop cond smooth u' x i c ?js p b")
  have rr: "r' = r"
    using example_loop_cong [OF Cons.prems assms(2), of cond x i c ?js p] l l' by simp
  have "map_option table_val ta = map_option table_val a"
    using example_loop_table [of cond smooth u x i c ?js p a] l by simp
  moreover have "map_option table_val tb = map_option table_val b"
    using example_loop_table [of cond smooth u' x i c ?js p b] l' by simp
  ultimately have tt: "map_option table_val ta = map_option table_val tb"
    using Cons.prems by simp
  show ?case
    using Cons.IH [OF tt] by (cases r) (simp_all add: e l l' rr)
qed

lemma predict_repeat:
  assumes "\<not> smoothing s \<or> u = u'"
    and "IcpClassifier_predict u x sg s = (r, s')"
  shows "fst (IcpClassifier_predict u' x sg s) = r"
    and "fst (IcpClassifier_predict u' x sg s') = r"
proof -
  show "fst (IcpClassifier_predict u' x sg s) = r"
  proof (cases "classes s")
    case None
    then show ?thesis using assms(2) by (auto simp: IcpClassifier_predict_def)
  next
    case (Some cls)
    let ?p0 = "replicate (length x) (replicate (length cls) (0::real))"
    have "fst (class_loop (calc_nc s) (condition s) (smoothing s) u x (enumerate 0 cls) ?p0 (cal_scores s))
        = fst (class_loop (calc_nc s) (condition s) (smoothing s) u' x (enumerate 0 cls) ?p0 (cal_scores s))"
      using class_loop_cong [OF refl assms(1)] by blast
    then show ?thesis
      using assms(2)
      by (auto simp: IcpClassifier_predict_def Some split: prod.splits sum.splits)
  qed
  show "fst (IcpClassifier_predict u' x sg s') = r"
  proof (cases "classes s")
    case None
    then show ?thesis using assms(2) by (auto simp: IcpClassifier_predict_def)
  next
    case (Some cls)
    let ?p0 = "replicate (length x) (replicate (length cls) (0::real))"
    obtain q tbl where l: "class_loop (calc_nc s) (condition s) (smoothing s) u x
        (enumerate 0 cls) ?p0 (cal_scores s) = (q, tbl)"
      by (cases "class_loop (calc_nc s) (condition s) (smoothing s) u x (enumerate 0 cls) ?p0 (cal_scores s)")
    have s': "s' = s\<lparr>cal_scores := tbl\<rparr>"
      using assms(2) by (cases q) (auto simp: IcpClassifier_predict_def Some l)
    have "map_option table_val tbl = map_option table_val (cal_scores s)"
      using class_loop_table [of "calc_nc s" "condition s" "smoothing s" u x "enumerate 0 cls" ?p0 "cal_scores s"] l
      by simp
    then have "fst (class_loop (calc_nc s) (condition s) (smoothing s) u' x (enumerate 0 cls) ?p0 tbl) = q"
      using class_loop_cong [of "cal_scores s" tbl "smoothing s" u u' "calc_nc s" "condition s" x "enumerate 0 cls" ?p0]
        assms(1) l by simp
    then show ?thesis
      using assms(2)
      by (cases q) (auto simp: IcpClassifier_predict_def Some l s' split: prod.splits sum.splits)
  qed
qed

section \<open>The entries that the loops write\<close>

lemma table_get_stored:
  "table_get t k = (r, t') \<Longrightarrow>
     stored_scores t' = stored_scores t \<and> (\<forall>v. r = Inr v \<longrightarrow> v = stored_scores t k)"
  by (cases t) (auto split: option.splits if_splits simp: fun_eq_iff stored_scores_def)

lemma example_loop_entries:
  assumes "example_loop cond smooth u x i c (enumerate n scores) p (Some t) = (Inr p', tbl')"
    and "length p = length x"
  shows "length p' = length p
       \<and> (\<exists>t'. tbl' = Some t' \<and> stored_scores t' = stored_scores t)
       \<and> (\<forall>j<length p. p' ! j =
            (if n \<le> j \<and> j < n + length scores
             then (p ! j)[i := p_value smooth (u j i) (stored_scores t (cond (x ! j, Some c)))
                                 (scores ! (j - n))]
             else p ! j))"
  using assms
proof (induction scores arbitrary: n p t)
  case Nil
  then show ?case by auto
next
  case (Cons nc rest)
  have en: "enumerate n (nc # rest) = (n, nc) # enumerate (Suc n) rest" by simp
  from Cons.prems(1) have nx: "n < length x"
    by (auto simp: en split: if_splits)
  obtain r t1 where g: "table_get t (cond (x ! n, Some c)) = (r, t1)"
    by (cases "table_get t (cond (x ! n, Some c))")
  from Cons.prems(1) nx obtain stored where r: "r = Inr stored"
    by (cases r) (auto simp: en g)
  have st: "stored = stored_scores t (cond (x ! n, Some c))"
    and t1: "stored_scores t1 = stored_scores t"
    using table_get_stored [OF g] r by simp_all
  let ?pv = "p_value smooth (u n i) stored nc"
  let ?p1 = "p[n := (p ! n)[i := ?pv]]"
  have rec: "example_loop cond smooth u x i c (enumerate (Suc n) rest) ?p1 (Some t1) = (Inr p', tbl')"
    using Cons.prems(1) nx by (simp add: en g r)
  have len1: "length ?p1 = length x" using Cons.prems(2) by simp
  note ih = Cons.IH [OF rec len1]
  have len: "length p' = length p" using ih by simp
  have tbl: "\<exists>t'. tbl' = Some t' \<and> stored_scores t' = stored_scores t"
    using ih t1 by simp
  have ent: "\<forall>j<length p. p' ! j =
      (if n \<le> j \<and> j < n + length (nc # rest)
       then (p ! j)[i := p_value smooth (u j i) (stored_scores t (cond (x ! j, Some c)))
                           ((nc # rest) ! (j - n))]
       else p ! j)"
  proof (intro allI impI)
    fix j assume j: "j < length p"
    have ihj: "p' ! j =
      (if Suc n \<le> j \<and> j < Suc n + length rest
       then (?p1 ! j)[i := p_value smooth (u j i) (stored_scores t (cond (x ! j, Some c)))
                           (rest ! (j - Suc n))]
       else ?p1 ! j)"
      using ih j t1 by simp
    consider (eq) "j = n" | (gt) "n < j" | (lt) "j < n" by linarith
    then show "p' ! j =
      (if n \<le> j \<and> j < n + length (nc # rest)
       then (p ! j)[i := p_value smooth (u j i) (stored_scores t (cond (x ! j, Some c)))
                           ((nc # rest) ! (j - n))]
       else p ! j)"
    proof cases
      case eq
      then show ?thesis using ihj j st by simp
    next
      case gt
      then have "(nc # rest) ! (j - n) = rest ! (j - Suc n)"
        by (simp add: nth_Cons')
      then show ?thesis using ihj j gt by auto
    next
      case lt
      then show ?thesis using ihj j by simp
    qed
  qed
  show ?case using len tbl ent by blast
qed

lemma class_loop_entries:
  assumes "class_loop nc cond smooth u x (enumerate m cls) p (Some t) = (Inr p', tbl')"
    and "length p = length x"
  shows "length p' = length p
       \<and> (\<forall>j<length p. length (p' ! j) = length (p ! j)
            \<and> (\<forall>i<length (p ! j). p' ! j ! i =
                 (if m \<le> i \<and> i < m + length cls
                     \<and> j < length (nc x (replicate (length x) (cls ! (i - m))))
                  then p_value smooth (u j i)
                         (stored_scores t (cond (x ! j, Some (cls ! (i - m)))))
                         (nc x (replicate (length x) (cls ! (i - m))) ! j)
                  else p ! j ! i)))"
  using assms
proof (induction cls arbitrary: m p t)
  case Nil
  then show ?case by simp
next
  case (Cons c rest)
  let ?scores = "nc x (replicate (length x) c)"
  have en: "enumerate m (c # rest) = (m, c) # enumerate (Suc m) rest" by simp
  obtain r tbl1 where e: "example_loop cond smooth u x m c (enumerate 0 ?scores) p (Some t) = (r, tbl1)"
    by (cases "example_loop cond smooth u x m c (enumerate 0 ?scores) p (Some t)")
  from Cons.prems(1) obtain p1 where r: "r = Inr p1"
    by (cases r) (auto simp: en e)
  note b = example_loop_entries [OF e [unfolded r] Cons.prems(2)]
  from b obtain t1 where t1: "tbl1 = Some t1" "stored_scores t1 = stored_scores t" by blast
  have len1: "length p1 = length p" using b by simp
  have row1: "\<forall>j<length p. p1 ! j =
      (if j < length ?scores
       then (p ! j)[m := p_value smooth (u j m) (stored_scores t (cond (x ! j, Some c))) (?scores ! j)]
       else p ! j)"
    using b by simp
  have rec: "class_loop nc cond smooth u x (enumerate (Suc m) rest) p1 (Some t1) = (Inr p', tbl')"
    using Cons.prems(1) by (simp add: en e r t1)
  have lenx: "length p1 = length x" using len1 Cons.prems(2) by simp
  note ih = Cons.IH [OF rec lenx]
  have len: "length p' = length p" using ih len1 by simp
  have "\<forall>j<length p. length (p' ! j) = length (p ! j)
            \<and> (\<forall>i<length (p ! j). p' ! j ! i =
                 (if m \<le> i \<and> i < m + length (c # rest)
                     \<and> j < length (nc x (replicate (length x) ((c # rest) ! (i - m))))
                  then p_value smooth (u j i)
                         (stored_scores t (cond (x ! j, Some ((c # rest) ! (i - m)))))
                         (nc x (replicate (length x) ((c # rest) ! (i - m))) ! j)
                  else p ! j ! i))"
  proof (intro allI impI)
    fix j assume j: "j < length p"
    then have j1: "j < length p1" using len1 by simp
    have l1: "length (p1 ! j) = length (p ! j)" using row1 j by simp
    have ihl: "length (p' ! j) = length (p1 ! j)" using ih j1 by simp
    have ihe: "\<And>i. i < length (p1 ! j) \<Longrightarrow> p' ! j ! i =
                 (if Suc m \<le> i \<and> i < Suc m + length rest
                     \<and> j < length (nc x (replicate (length x) (rest ! (i - Suc m))))
                  then p_value smooth (u j i)
                         (stored_scores t (cond (x ! j, Some (rest ! (i - Suc m)))))
                         (nc x (replicate (length x) (rest ! (i - Suc m))) ! j)
                  else p1 ! j ! i)"
      using ih j1 t1 by simp
    have ent: "\<forall>i<length (p ! j). p' ! j ! i =
                 (if m \<le> i \<and> i < m + length (c # rest)
                     \<and> j < length (nc x (replicate (length x) ((c # rest) ! (i - m))))
                  then p_value smooth (u j i)
                         (stored_scores t (cond (x ! j, Some ((c # rest) ! (i - m)))))
                         (nc x (replicate (length x) ((c # rest) ! (i - m))) ! j)
                  else p ! j ! i)"
    proof (intro allI impI)
      fix i assume i: "i < length (p ! j)"
      then have i1: "i < length (p1 ! j)" using l1 by simp
      consider (eq) "i = m" | (gt) "m < i" | (lt) "i < m" by linarith
      then show "p' ! j ! i =
                 (if m \<le> i \<and> i < m + length (c # rest)
                     \<and> j < length (nc x (replicate (length x) ((c # rest) ! (i - m))))
                  then p_value smooth (u j i)
                         (stored_scores t (cond (x ! j, Some ((c # rest) ! (i - m)))))
                         (nc x (replicate (length x) ((c # rest) ! (i - m))) ! j)
                  else p ! j ! i)"
      proof cases
        case eq
        have "p' ! j ! m = p1 ! j ! m" using ihe [of m] i1 eq by simp
        then show ?thesis using row1 j i eq by simp
      next
        case gt
        then have nth: "(c # rest) ! (i - m) = rest ! (i - Suc m)"
          by (simp add: nth_Cons')
        have "p1 ! j ! i = p ! j ! i" using row1 j gt by simp
        then show ?thesis using ihe [OF i1] gt nth by auto
      next
        case lt
        have "p1 ! j ! i = p ! j ! i" using row1 j lt by simp
        then show ?thesis using ihe [OF i1] lt by simp
      qed
    qed
    show "length (p' ! j) = length (p ! j)
            \<and> (\<forall>i<length (p ! j). p' ! j ! i =
                 (if m \<le> i \<and> i < m + length (c # rest)
                     \<and> j < length (nc x (replicate (length x) ((c # rest) ! (i - m))))
                  then p_value smooth (u j i)
                         (stored_scores t (cond (x ! j, Some ((c # rest) ! (i - m)))))
                         (nc x (replicate (length x) ((c # rest) ! (i - m))) ! j)
                  else p ! j ! i))"
      using ihl l1 ent by simp
  qed
  with len show ?case by blast
qed

lemma predict_entry:
  assumes "fst (IcpClassifier_predict u x None s) = Inr (PValues p)"
    and "classes s = Some cls" and "cal_scores s = Some t"
    and "j < length x" and "i < length cls"
    and "j < length (calc_nc s x (replicate (length x) (cls ! i)))"
  shows "length p = length x" and "length (p ! j) = length cls"
    and "p ! j ! i = p_value (smoothing s) (u j i)
                       (stored_scores t (condition s (x ! j, Some (cls ! i))))
                       (calc_nc s x (replicate (length x) (cls ! i)) ! j)"
proof -
  let ?p0 = "replicate (length x) (replicate (length cls) (0::real))"
  obtain r tbl where l: "class_loop (calc_nc s) (condition s) (smoothing s) u x
      (enumerate 0 cls) ?p0 (Some t) = (r, tbl)"
    by (cases "class_loop (calc_nc s) (condition s) (smoothing s) u x (enumerate 0 cls) ?p0 (Some t)")
  from assms(1) have r: "r = Inr p"
    by (cases r) (auto simp: IcpClassifier_predict_def assms(2,3) l)
  have len0: "length ?p0 = length x" by simp
  note c = class_loop_entries [OF l [unfolded r] len0]
  show "length p = length x" using c by simp
  show "length (p ! j) = length cls" using c assms(4) by simp
  show "p ! j ! i = p_value (smoothing s) (u j i)
                       (stored_scores t (condition s (x ! j, Some (cls ! i))))
                       (calc_nc s x (replicate (length x) (cls ! i)) ! j)"
    using c assms(4,5,6) by simp
qed

section \<open>The class registry\<close>

lemma classes_update_calibration_set:
  "classes (update_calibration_set x y increment s) = classes s"
  by (simp add: update_calibration_set_def split: option.splits bool.splits)

lemma classes_calibrate:
  "classes (snd (calibrate hook x y increment s)) = classes (hook x y increment s)"
  by (simp add: calibrate_def Let_def classes_update_calibration_set
      split: option.splits prod.splits)

text \<open>
  C6, as stated: a label that some \<^verbatim>\<open>calibrate\<close> call has put into the class registry
  is never removed by a later call, with or without \<^verbatim>\<open>increment=True\<close>.  This fails:
  after \<^verbatim>\<open>calibrate(x, [0, 1])\<close> the registry is \<open>[0, 1]\<close>, and a following
  \<^verbatim>\<open>calibrate(x', [0])\<close> without increment leaves the registry \<open>[0]\<close>; label 1 is gone.
\<close>

theorem C6_registry_counterexample:
  "classes (snd (IcpClassifier_calibrate [1/10, 2/10] [0, 1] False
             (IcpClassifier_init score_by_input (None :: (real \<times> int option \<Rightarrow> int) option) False)))
     = Some [0, 1]
   \<and> classes (snd (IcpClassifier_calibrate [3/10] [0] False
        (snd (IcpClassifier_calibrate [1/10, 2/10] [0, 1] False
               (IcpClassifier_init score_by_input (None :: (real \<times> int option \<Rightarrow> int) option) False)))))
     = Some [0]"
  by (simp add: icp_unfold)

text \<open>
  C6, amended: after every \<^verbatim>\<open>calibrate\<close> call of the classifier the registry is the
  sorted list of the distinct labels of the call's batch, joined with the previous
  registry exactly when the call is incremental and a registry exists.  So a call with
  \<^verbatim>\<open>increment=True\<close> never removes a label, and a call without it replaces the registry
  by the labels of its own batch.  This holds also when the call goes on to raise.
\<close>

theorem C6_registry:
  "classes (snd (IcpClassifier_calibrate x y increment s)) =
     Some (np_unique ((case classes s of None \<Rightarrow> [] | Some cls \<Rightarrow> if increment then cls else []) @ y))
   \<and> (increment \<longrightarrow> (\<forall>cls. classes s = Some cls \<longrightarrow>
         (\<exists>reg. classes (snd (IcpClassifier_calibrate x y increment s)) = Some reg
                \<and> sorted reg \<and> distinct reg \<and> set reg = set cls \<union> set y)))
   \<and> (\<not> increment \<longrightarrow>
         (\<exists>reg. classes (snd (IcpClassifier_calibrate x y increment s)) = Some reg
                \<and> sorted reg \<and> distinct reg \<and> set reg = set y))"
  by (auto simp add: IcpClassifier_calibrate_def classes_calibrate classifier_calibrate_hook_def
      update_classes_def np_unique_props split: option.splits)

text \<open>
  Witness of C6 (amended): on the classifier calibrated with the single label 0, an
  incremental call with label 2 gives the registry \<open>[0, 2]\<close> and a non-incremental one
  gives \<open>[2]\<close>.
\<close>

theorem C6_registry_witness:
  "classes (snd (IcpClassifier_calibrate [3/10] [2] True scenario_classifier)) = Some [0, 2]
   \<and> classes (snd (IcpClassifier_calibrate [3/10] [2] False scenario_classifier)) = Some [2]"
  using C6_registry [of "[3/10]" "[2]" True scenario_classifier]
        C6_registry [of "[3/10]" "[2]" False scenario_classifier]
  by (simp add: scenario_classifier_def icp_unfold)

section \<open>What a successful calibration leaves in the object\<close>

lemma category_loop_sorted:
  "\<forall>k. sorted (rev (case tbl k of None \<Rightarrow> [] | Some v \<Rightarrow> v)) \<Longrightarrow>
   category_loop nc cx cy category_map cats tbl = (e, tbl') \<Longrightarrow>
   \<forall>k. sorted (rev (case tbl' k of None \<Rightarrow> [] | Some v \<Rightarrow> v))"
proof (induction cats arbitrary: tbl)
  case Nil
  then show ?case by simp
next
  case (Cons cnd rest)
  show ?case
  proof (cases "bool_index cx (map (\<lambda>k. k = cnd) category_map)")
    case (Inl err)
    then show ?thesis using Cons.prems by simp
  next
    case xs: (Inr xs)
    show ?thesis
    proof (cases "bool_index cy (map (\<lambda>k. k = cnd) category_map)")
      case (Inl err)
      then show ?thesis using Cons.prems xs by simp
    next
      case ys: (Inr ys)
      let ?tbl1 = "tbl(cnd \<mapsto> rev (sort (nc xs ys)))"
      have "\<forall>k. sorted (rev (case ?tbl1 k of None \<Rightarrow> [] | Some v \<Rightarrow> v))"
        using Cons.prems(1) by simp
      moreover have "category_loop nc cx cy category_map rest ?tbl1 = (e, tbl')"
        using Cons.prems(2) xs ys by simp
      ultimately show ?thesis using Cons.IH by blast
    qed
  qed
qed

lemma update_calibration_set_fields:
  "\<exists>cx cy. cal_x (update_calibration_set x y increment s) = Some cx
         \<and> cal_y (update_calibration_set x y increment s) = Some cy"
  "conditional (update_calibration_set x y increment s) = conditional s"
  "condition (update_calibration_set x y increment s) = condition s"
  "calc_nc (update_calibration_set x y increment s) = calc_nc s"
  "smoothing (update_calibration_set x y increment s) = smoothing s"
  by (auto simp: update_calibration_set_def split: option.splits bool.splits)

lemma update_classes_fields:
  "conditional (update_classes y increment s) = conditional s"
  "condition (update_classes y increment s) = condition s"
  "calc_nc (update_classes y increment s) = calc_nc s"
  "smoothing (update_classes y increment s) = smoothing s"
  "cal_x (update_classes y increment s) = cal_x s"
  "cal_y (update_classes y increment s) = cal_y s"
  by (auto simp: update_classes_def split: option.splits)

lemma calibrate_fields:
  "conditional (snd (calibrate hook x y increment s)) = conditional (hook x y increment s)"
  "condition (snd (calibrate hook x y increment s)) = condition (hook x y increment s)"
  "calc_nc (snd (calibrate hook x y increment s)) = calc_nc (hook x y increment s)"
  "smoothing (snd (calibrate hook x y increment s)) = smoothing (hook x y increment s)"
  by (auto simp: calibrate_def Let_def update_calibration_set_fields
      split: option.splits prod.splits)

lemma classifier_calibrate_fields:
  "conditional (snd (IcpClassifier_calibrate x y increment s)) = conditional s"
  "condition (snd (IcpClassifier_calibrate x y increment s)) = condition s"
  "calc_nc (snd (IcpClassifier_calibrate x y increment s)) = calc_nc s"
  "smoothing (snd (IcpClassifier_calibrate x y increment s)) = smoothing s"
  by (simp_all add: IcpClassifier_calibrate_def calibrate_fields classifier_calibrate_hook_def
      update_classes_fields)

lemma calibrate_table:
  assumes "fst (calibrate hook x y increment s0) = None"
  shows "\<exists>m. cal_scores (snd (calibrate hook x y increment s0))
              = Some (if conditional (hook x y increment s0) then DefaultDict m else Dict m)
            \<and> (\<not> conditional (hook x y increment s0) \<longrightarrow> m 0 \<noteq> None)
            \<and> (\<forall>k. sorted (rev (case m k of None \<Rightarrow> [] | Some v \<Rightarrow> v)))"
proof -
  let ?s1 = "hook x y increment s0"
  let ?s2 = "update_calibration_set x y increment ?s1"
  obtain cx cy where c: "cal_x ?s2 = Some cx" "cal_y ?s2 = Some cy"
    using update_calibration_set_fields(1) [of x y increment ?s1] by blast
  have cond2: "conditional ?s2 = conditional ?s1"
    by (simp add: update_calibration_set_fields)
  show ?thesis
  proof (cases "conditional ?s1")
    case False
    have "cal_scores (snd (calibrate hook x y increment s0))
        = Some (Dict [0 \<mapsto> rev (sort (calc_nc ?s2 cx cy))])"
      using False cond2 c by (simp add: calibrate_def Let_def)
    then show ?thesis using False by (intro exI [of _ "[0 \<mapsto> rev (sort (calc_nc ?s2 cx cy))]"]) simp
  next
    case True
    have len: "\<not> length x < length y"
      using assms True cond2 by (auto simp: calibrate_def Let_def)
    let ?cm = "map (\<lambda>(xi, yi). condition ?s2 (xi, Some yi)) (zip x y)"
    obtain e tbl where l: "category_loop (calc_nc ?s2) cx cy ?cm (np_unique ?cm) Map.empty = (e, tbl)"
      by (cases "category_loop (calc_nc ?s2) cx cy ?cm (np_unique ?cm) Map.empty")
    have "cal_scores (snd (calibrate hook x y increment s0)) = Some (DefaultDict tbl)"
      using True cond2 c len l by (simp add: calibrate_def Let_def)
    moreover have "\<forall>k. sorted (rev (case tbl k of None \<Rightarrow> [] | Some v \<Rightarrow> v))"
      using category_loop_sorted [OF _ l] by simp
    ultimately show ?thesis using True by (intro exI [of _ tbl]) simp
  qed
qed

lemma calibrate_sorted:
  assumes "fst (calibrate hook x y increment s0) = None"
    and "cal_scores (snd (calibrate hook x y increment s0)) = Some t"
  shows "sorted (rev (stored_scores t k))"
  using calibrate_table [OF assms(1)] assms(2)
  by (auto simp: stored_scores_def split: if_splits)

section \<open>When the classifier returns\<close>

lemma example_loop_total:
  assumes "\<forall>z. \<exists>v. table_val t (cond z) = Inr v"
    and "n + length scores \<le> length x"
  shows "\<exists>p' t'. example_loop cond smooth u x i c (enumerate n scores) p (Some t) = (Inr p', Some t')
               \<and> table_val t' = table_val t"
  using assms
proof (induction scores arbitrary: n p t)
  case Nil
  then show ?case by simp
next
  case (Cons nc rest)
  have nx: "n < length x" using Cons.prems(2) by simp
  obtain r t1 where g: "table_get t (cond (x ! n, Some c)) = (r, t1)"
    by (cases "table_get t (cond (x ! n, Some c))")
  have r: "r = table_val t (cond (x ! n, Some c))" and t1: "table_val t1 = table_val t"
    using table_get_val [OF g] by simp_all
  obtain stored where st: "r = Inr stored" using r Cons.prems(1) by metis
  have ok1: "\<forall>z. \<exists>v. table_val t1 (cond z) = Inr v" using Cons.prems(1) t1 by simp
  have "Suc n + length rest \<le> length x" using Cons.prems(2) by simp
  from Cons.IH [OF ok1 this, of "p[n := (p ! n)[i := p_value smooth (u n i) stored nc]]"]
  show ?case using nx g st t1 by simp
qed

lemma class_loop_total:
  assumes "\<forall>z. \<exists>v. table_val t (cond z) = Inr v"
    and "\<forall>c. length (nc x (replicate (length x) c)) \<le> length x"
  shows "\<exists>p' t'. class_loop nc cond smooth u x cs p (Some t) = (Inr p', Some t')"
  using assms(1)
proof (induction cs arbitrary: p t)
  case Nil
  then show ?case by simp
next
  case (Cons a cs)
  obtain i c where a: "a = (i, c)" by (cases a)
  have "0 + length (nc x (replicate (length x) c)) \<le> length x" using assms(2) by simp
  from example_loop_total [OF Cons.prems this, of smooth u i c p]
  obtain p1 t1 where e: "example_loop cond smooth u x i c
        (enumerate 0 (nc x (replicate (length x) c))) p (Some t) = (Inr p1, Some t1)"
    and t1: "table_val t1 = table_val t" by blast
  have "\<forall>z. \<exists>v. table_val t1 (cond z) = Inr v" using Cons.prems t1 by simp
  from Cons.IH [OF this, of p1] show ?case by (simp add: a e)
qed

lemma predict_total:
  assumes "classes s = Some cls" "cal_scores s = Some t"
    and "\<forall>z. \<exists>v. table_val t (condition s z) = Inr v"
    and "\<forall>c. length (calc_nc s x (replicate (length x) c)) \<le> length x"
  shows "\<exists>p. fst (IcpClassifier_predict u x None s) = Inr (PValues p)"
proof -
  from class_loop_total [of t "condition s" "calc_nc s" x "smoothing s" u "enumerate 0 cls"
      "replicate (length x) (replicate (length cls) 0)"] assms(3,4)
  obtain p t' where "class_loop (calc_nc s) (condition s) (smoothing s) u x (enumerate 0 cls)
      (replicate (length x) (replicate (length cls) 0)) (Some t) = (Inr p, Some t')" by blast
  then show ?thesis by (simp add: IcpClassifier_predict_def assms(1,2))
qed

lemma calibrated_predict_total:
  assumes "IcpClassifier_calibrate xc yc increment s0 = (None, s)"
    and "conditional s0 \<or> (\<forall>z. condition s0 z = 0)"
    and "\<forall>c. length (calc_nc s x (replicate (length x) c)) \<le> length x"
  shows "\<exists>p. fst (IcpClassifier_predict u x None s) = Inr (PValues p)"
proof -
  have s: "s = snd (IcpClassifier_calibrate xc yc increment s0)"
    and ok: "fst (calibrate classifier_calibrate_hook xc yc increment s0) = None"
    using assms(1) by (simp_all add: IcpClassifier_calibrate_def)
  have cnd: "conditional (classifier_calibrate_hook xc yc increment s0) = conditional s0"
    by (simp add: classifier_calibrate_hook_def update_classes_fields)
  from calibrate_table [OF ok] obtain m where
    t: "cal_scores s = Some (if conditional s0 then DefaultDict m else Dict m)"
    and m0: "\<not> conditional s0 \<longrightarrow> m 0 \<noteq> None"
    unfolding cnd s IcpClassifier_calibrate_def by blast
  have "\<exists>cls. classes s = Some cls"
    unfolding s IcpClassifier_calibrate_def
    by (simp add: classes_calibrate classifier_calibrate_hook_def update_classes_def
        split: option.splits)
  then obtain cls where cls: "classes s = Some cls" by blast
  have cs: "condition s = condition s0" by (simp add: s classifier_calibrate_fields)
  have "\<forall>z. \<exists>v. table_val (if conditional s0 then DefaultDict m else Dict m) (condition s z) = Inr v"
    using assms(2) m0 by (auto simp: cs split: option.splits)
  from predict_total [OF cls t this assms(3)] show ?thesis .
qed

lemma predict_labels_form:
  assumes "fst (IcpClassifier_predict u x (Some a) s) = Inr (Labels L)"
  shows "\<exists>p. fst (IcpClassifier_predict u x None s) = Inr (PValues p)
            \<and> L = map (map (\<lambda>v. a < v)) p"
  using assms
  by (auto simp: IcpClassifier_predict_def split: option.splits prod.splits sum.splits)

section \<open>The worked scenario\<close>

text \<open>
  C2, as stated: with calibration scores 0.1, 0.4, 0.4, 0.9 in a single category, test
  score 0.4 and no smoothing, \<open>n_gt = 1\<close>, \<open>n_eq = 2\<close>, \<open>n_cal = 4\<close>, the p-value is 0.6,
  and the label is included at significance 0.5 and excluded at 0.7.  This fails: the
  code counts the test point in \<open>n_eq\<close>, so \<open>n_eq = 3\<close> and the p-value is 0.8.
\<close>

theorem C2_scenario_counterexample:
  "\<not> (n_gt_of [9/10, 4/10, 4/10, 1/10] (4/10) = 1
      \<and> n_eq_of [9/10, 4/10, 4/10, 1/10] (4/10) = 2
      \<and> n_cal_of [9/10, 4/10, 4/10, 1/10] = 4
      \<and> fst (IcpClassifier_predict zero_draw [4/10] None scenario_classifier)
          = Inr (PValues [[6/10]])
      \<and> fst (IcpClassifier_predict zero_draw [4/10] (Some (5/10)) scenario_classifier)
          = Inr (Labels [[True]])
      \<and> fst (IcpClassifier_predict zero_draw [4/10] (Some (7/10)) scenario_classifier)
          = Inr (Labels [[False]]))"
  by (simp add: scenario_classifier_def icp_unfold)

text \<open>
  C2, amended: in that scenario the stored score array is 0.9, 0.4, 0.4, 0.1,
  \<open>n_gt = 1\<close>, \<open>n_eq = 3\<close> (the two ties and the test point), \<open>n_cal = 4\<close>, the p-value is
  (1 + 3)/5 = 0.8, and the label is included at significance 0.5 and at 0.7.
\<close>

theorem C2_scenario:
  "cal_scores scenario_classifier = Some (Dict [0 \<mapsto> [9/10, 4/10, 4/10, 1/10]])
   \<and> n_gt_of [9/10, 4/10, 4/10, 1/10] (4/10) = 1
   \<and> n_eq_of [9/10, 4/10, 4/10, 1/10] (4/10) = 3
   \<and> n_cal_of [9/10, 4/10, 4/10, 1/10] = 4
   \<and> fst (IcpClassifier_predict zero_draw [4/10] None scenario_classifier)
       = Inr (PValues [[8/10]])
   \<and> fst (IcpClassifier_predict zero_draw [4/10] (Some (5/10)) scenario_classifier)
       = Inr (Labels [[True]])
   \<and> fst (IcpClassifier_predict zero_draw [4/10] (Some (7/10)) scenario_classifier)
       = Inr (Labels [[True]])"
  by (simp add: scenario_classifier_def icp_unfold)

section \<open>Significance is not validated\<close>

lemma classifier_labels_of_pvalues:
  "fst (IcpClassifier_predict u x None s) = Inr (PValues p) \<Longrightarrow>
     fst (IcpClassifier_predict u x (Some sg) s) = Inr (Labels (map (map (\<lambda>v. sg < v)) p))"
  by (auto simp add: IcpClassifier_predict_def split: option.splits prod.splits sum.splits)

lemma regressor_forwards_significance:
  assumes "x \<noteq> []"
    and "length (ncp x (rev (sort (nc xc yc))) (Some sg)) = length x"
    and "list_all (\<lambda>row. length row = 2) (ncp x (rev (sort (nc xc yc))) (Some sg))"
  shows "fst (IcpRegressor_predict x (Some sg)
            (snd (IcpRegressor_calibrate xc yc False
                    (IcpRegressor_init nc ncp (None :: ('x \<times> 'y option \<Rightarrow> 'c::{zero,linorder}) option)))))
         = Inr (ncp x (rev (sort (nc xc yc))) (Some sg))"
  using assms
  by (simp add: IcpRegressor_predict_def IcpRegressor_calibrate_def calibrate_def
      calibrate_hook_def update_calibration_set_def IcpRegressor_init_def BaseIcp_init_def
      Let_def set_rows_def map_replicate_const filter_id_replicate filter_all_true
      assign_rows_all)

text \<open>
  C9, as stated: \<^verbatim>\<open>predict\<close> rejects every significance outside (0, 1) with an
  input-validation error.  This fails: the classifier answers significance 2 with the
  all-excluded indicator matrix and significance -1 with the all-included one, and the
  regressor answers significance 2 with the intervals that the nonconformity function
  returns.
\<close>

theorem C9_significance_counterexample:
  "fst (IcpClassifier_predict zero_draw [4/10] (Some 2) scenario_classifier)
     = Inr (Labels [[False]])
   \<and> fst (IcpClassifier_predict zero_draw [4/10] (Some (- 1)) scenario_classifier)
     = Inr (Labels [[True]])
   \<and> fst (IcpRegressor_predict [5, 7] (Some 2) scenario_regressor)
     = Inr [[4, 6], [6, 8]]"
  by (simp add: scenario_classifier_def scenario_regressor_def icp_unfold)

text \<open>
  C9, amended: \<^verbatim>\<open>predict\<close> does not validate the significance.  For every real
  significance, inside (0, 1) or not, the classifier returns the indicator matrix
  \<^verbatim>\<open>p > significance\<close> of the p-value matrix it computes, and the non-conditional
  regressor returns what the nonconformity function's \<^verbatim>\<open>predict\<close> returns for the test
  inputs, the stored scores and that significance (given one pair of bounds per
  example).
\<close>

theorem C9_significance_unchecked:
  "(fst (IcpClassifier_predict u x None s) = Inr (PValues p) \<longrightarrow>
      fst (IcpClassifier_predict u x (Some sg) s) = Inr (Labels (map (map (\<lambda>v. sg < v)) p)))
   \<and> (xr \<noteq> [] \<and> length (ncp xr (rev (sort (nc xc yc))) (Some sg)) = length xr
        \<and> list_all (\<lambda>row. length row = 2) (ncp xr (rev (sort (nc xc yc))) (Some sg)) \<longrightarrow>
      fst (IcpRegressor_predict xr (Some sg)
             (snd (IcpRegressor_calibrate xc yc False
                     (IcpRegressor_init nc ncp (None :: ('x \<times> 'y option \<Rightarrow> 'c::{zero,linorder}) option)))))
        = Inr (ncp xr (rev (sort (nc xc yc))) (Some sg)))"
  using classifier_labels_of_pvalues [of u x s p sg]
        regressor_forwards_significance [of xr ncp nc xc yc sg]
  by blast

text \<open>
  Witness of C9 (amended): at significance 2 the scenario classifier, whose p-value
  matrix is \<open>[[0.8]]\<close>, returns \<open>[[False]]\<close>, and the scenario regressor returns the
  bounds of its nonconformity function.
\<close>

theorem C9_significance_unchecked_witness:
  "fst (IcpClassifier_predict zero_draw [4/10] None scenario_classifier) = Inr (PValues [[8/10]])
   \<and> fst (IcpClassifier_predict zero_draw [4/10] (Some 2) scenario_classifier)
       = Inr (Labels (map (map (\<lambda>v. 2 < v)) [[8/10 :: real]]))
   \<and> [5, 7] \<noteq> ([] :: real list)
   \<and> length (unit_band [5, 7] (rev (sort (score_by_input [1, 2, 4] [1, 3, 3]))) (Some 2)) = length [5, 7 :: real]
   \<and> list_all (\<lambda>row. length row = 2)
        (unit_band [5, 7] (rev (sort (score_by_input [1, 2, 4] [1, 3, 3]))) (Some 2))
   \<and> fst (IcpRegressor_predict [5, 7] (Some 2)
             (snd (IcpRegressor_calibrate [1, 2, 4] [1, 3, 3] False
                     (IcpRegressor_init score_by_input unit_band (None :: (real \<times> int option \<Rightarrow> int) option)))))
       = Inr (unit_band [5, 7] (rev (sort (score_by_input [1, 2, 4] [1, 3, 3]))) (Some 2))"
proof -
  have p: "fst (IcpClassifier_predict zero_draw [4/10] None scenario_classifier) = Inr (PValues [[8/10]])"
    by (simp add: scenario_classifier_def icp_unfold)
  have shape: "[5, 7] \<noteq> ([] :: real list)
     \<and> length (unit_band [5, 7] (rev (sort (score_by_input [1, 2, 4] [1, 3, 3]))) (Some 2)) = length [5, 7 :: real]
     \<and> list_all (\<lambda>row. length row = 2)
          (unit_band [5, 7] (rev (sort (score_by_input [1, 2, 4] [1, 3, 3]))) (Some 2))"
    by simp
  show ?thesis
    using p shape
      C9_significance_unchecked [of zero_draw "[4/10]" scenario_classifier "[[8/10]]" 2
        "[5, 7]" unit_band score_by_input "[1, 2, 4]" "[1, 3, 3]"]
    by blast
qed

section \<open>Calibrations that replace the calibration set, and non-conditional increments\<close>

text \<open>
  A non-incremental \<^verbatim>\<open>calibrate\<close> call, and an incremental one on a non-conditional
  classifier, do what the documentation of \<^verbatim>\<open>calibrate\<close> says: the result of
  calibrating on a batch and then incrementally on a second one is the result of
  calibrating once on both (non-conditional case); a conditional call that replaces the
  calibration set stores, for every category of the set, the scores of exactly the
  examples of that category; and the stored arrays then have as many scores as the
  calibration set has examples (for a scorer that returns one score per example).
\<close>

lemma np_unique_absorb: "np_unique (np_unique a @ b) = np_unique (a @ b)"
proof -
  have "set (np_unique (np_unique a @ b)) = set (np_unique (a @ b))"
    by (simp add: np_unique_props)
  then show ?thesis
    using np_unique_props(1,2) sorted_distinct_set_unique by blast
qed

lemma classifier_calibrate_replace:
  assumes "\<not> conditional s0"
  shows "IcpClassifier_calibrate x y False s0 =
     (None, s0\<lparr>cal_x := Some x, cal_y := Some y, categories := Some [0],
               cal_scores := Some (Dict [0 \<mapsto> rev (sort (calc_nc s0 x y))]),
               classes := Some (np_unique y)\<rparr>)"
proof -
  have h: "classifier_calibrate_hook x y False s0 = s0\<lparr>classes := Some (np_unique y)\<rparr>"
    by (cases "classes s0") (simp_all add: classifier_calibrate_hook_def update_classes_def)
  have u: "update_calibration_set x y False (s0\<lparr>classes := Some (np_unique y)\<rparr>)
      = s0\<lparr>cal_x := Some x, cal_y := Some y, classes := Some (np_unique y)\<rparr>"
    by (simp add: update_calibration_set_def)
  show ?thesis
    unfolding IcpClassifier_calibrate_def calibrate_def h u Let_def
    using assms by simp
qed

lemma classifier_calibrate_append:
  assumes "\<not> conditional s" "classes s = Some cls" "cal_x s = Some cx" "cal_y s = Some cy"
  shows "IcpClassifier_calibrate x y True s =
     (None, s\<lparr>cal_x := Some (cx @ x), cal_y := Some (cy @ y), categories := Some [0],
              cal_scores := Some (Dict [0 \<mapsto> rev (sort (calc_nc s (cx @ x) (cy @ y)))]),
              classes := Some (np_unique (cls @ y))\<rparr>)"
proof -
  have h: "classifier_calibrate_hook x y True s = s\<lparr>classes := Some (np_unique (cls @ y))\<rparr>"
    using assms(2) by (simp add: classifier_calibrate_hook_def update_classes_def)
  have u: "update_calibration_set x y True (s\<lparr>classes := Some (np_unique (cls @ y))\<rparr>)
      = s\<lparr>cal_x := Some (cx @ x), cal_y := Some (cy @ y), classes := Some (np_unique (cls @ y))\<rparr>"
    using assms(3,4) by (simp add: update_calibration_set_def)
  show ?thesis
    unfolding IcpClassifier_calibrate_def calibrate_def h u Let_def
    using assms(1) by simp
qed

lemma nonconditional_incremental_equivalence:
  assumes "\<not> conditional s0"
  shows "IcpClassifier_calibrate xb yb True (snd (IcpClassifier_calibrate xa ya False s0))
       = IcpClassifier_calibrate (xa @ xb) (ya @ yb) False s0"
proof -
  let ?sa = "s0\<lparr>cal_x := Some xa, cal_y := Some ya, categories := Some [0],
               cal_scores := Some (Dict [0 \<mapsto> rev (sort (calc_nc s0 xa ya))]),
               classes := Some (np_unique ya)\<rparr>"
  have a: "snd (IcpClassifier_calibrate xa ya False s0) = ?sa"
    by (simp add: classifier_calibrate_replace [OF assms])
  have b: "IcpClassifier_calibrate xb yb True ?sa =
     (None, ?sa\<lparr>cal_x := Some (xa @ xb), cal_y := Some (ya @ yb), categories := Some [0],
              cal_scores := Some (Dict [0 \<mapsto> rev (sort (calc_nc ?sa (xa @ xb) (ya @ yb)))]),
              classes := Some (np_unique (np_unique ya @ yb))\<rparr>)"
    by (rule classifier_calibrate_append) (use assms in simp_all)
  have c: "IcpClassifier_calibrate (xa @ xb) (ya @ yb) False s0 =
     (None, s0\<lparr>cal_x := Some (xa @ xb), cal_y := Some (ya @ yb), categories := Some [0],
               cal_scores := Some (Dict [0 \<mapsto> rev (sort (calc_nc s0 (xa @ xb) (ya @ yb)))]),
               classes := Some (np_unique (ya @ yb))\<rparr>)"
    by (rule classifier_calibrate_replace [OF assms])
  have "IcpClassifier_calibrate xb yb True ?sa = IcpClassifier_calibrate (xa @ xb) (ya @ yb) False s0"
    unfolding b c by (simp add: np_unique_absorb)
  then show ?thesis unfolding a .
qed

lemma mask_select:
  "length xs = length ys \<Longrightarrow>
   map fst (filter snd (zip xs (map (\<lambda>c. c = k) (map f (zip xs ys)))))
     = map fst (filter (\<lambda>z. f z = k) (zip xs ys))
   \<and> map fst (filter snd (zip ys (map (\<lambda>c. c = k) (map f (zip xs ys)))))
     = map snd (filter (\<lambda>z. f z = k) (zip xs ys))"
  by (induction xs ys rule: list_induct2) auto

lemma category_loop_fresh:
  assumes "length cx = length cy"
  shows "category_loop nc cx cy (map f (zip cx cy)) cats tbl =
     (None, (\<lambda>k. if k \<in> set cats
                  then Some (rev (sort (nc (map fst (filter (\<lambda>z. f z = k) (zip cx cy)))
                                           (map snd (filter (\<lambda>z. f z = k) (zip cx cy))))))
                  else tbl k))"
proof (induction cats arbitrary: tbl)
  case Nil
  then show ?case by simp
next
  case (Cons cnd rest)
  let ?xs = "map fst (filter (\<lambda>z. f z = cnd) (zip cx cy))"
  let ?ys = "map snd (filter (\<lambda>z. f z = cnd) (zip cx cy))"
  have bx: "bool_index cx (map (\<lambda>k. k = cnd) (map f (zip cx cy))) = Inr ?xs"
    unfolding bool_index_def using assms mask_select [OF assms, of cnd f] by simp
  have by': "bool_index cy (map (\<lambda>k. k = cnd) (map f (zip cx cy))) = Inr ?ys"
    unfolding bool_index_def using assms mask_select [OF assms, of cnd f] by simp
  have step: "category_loop nc cx cy (map f (zip cx cy)) (cnd # rest) tbl
      = category_loop nc cx cy (map f (zip cx cy)) rest (tbl(cnd \<mapsto> rev (sort (nc ?xs ?ys))))"
    by (simp only: category_loop.simps bx by' sum.case)
  show ?case
    unfolding step Cons.IH by (auto simp: fun_eq_iff)
qed

lemma sum_category_sizes:
  "sum_list (map (\<lambda>k. length (filter (\<lambda>c. c = k) cm)) (np_unique cm)) = length cm"
proof -
  have "sum_list (map (\<lambda>k. length (filter (\<lambda>c. c = k) cm)) (np_unique cm))
      = sum (\<lambda>k. length (filter (\<lambda>c. c = k) cm)) (set (np_unique cm))"
    using np_unique_props(2) [of cm] by (simp add: sum_list_distinct_conv_sum_set)
  also have "\<dots> = sum (count_list cm) (set cm)"
    by (simp add: np_unique_props count_list_eq_length_filter eq_commute [of _ "_ :: 'a"])
  also have "\<dots> = length cm" by (simp add: sum_count_set)
  finally show ?thesis .
qed


lemma classifier_calibrate_conditional_replace:
  assumes "conditional s0" and "length x = length y"
  shows "IcpClassifier_calibrate x y False s0 =
     (None, s0\<lparr>cal_x := Some x, cal_y := Some y,
               categories := Some (np_unique (map (\<lambda>(xi, yi). condition s0 (xi, Some yi)) (zip x y))),
               cal_scores := Some (DefaultDict (\<lambda>k.
                  if k \<in> set (map (\<lambda>(xi, yi). condition s0 (xi, Some yi)) (zip x y))
                  then Some (documented_scores (calc_nc s0) (condition s0) x y k) else None)),
               classes := Some (np_unique y)\<rparr>)"
proof -
  let ?f = "\<lambda>(xi, yi). condition s0 (xi, Some yi)"
  let ?cm = "map ?f (zip x y)"
  have h: "classifier_calibrate_hook x y False s0 = s0\<lparr>classes := Some (np_unique y)\<rparr>"
    by (cases "classes s0") (simp_all add: classifier_calibrate_hook_def update_classes_def)
  have u: "update_calibration_set x y False (s0\<lparr>classes := Some (np_unique y)\<rparr>)
      = s0\<lparr>cal_x := Some x, cal_y := Some y, classes := Some (np_unique y)\<rparr>"
    by (simp add: update_calibration_set_def)
  have doc: "rev (sort (calc_nc s0 (map fst (filter (\<lambda>z. ?f z = k) (zip x y)))
                                  (map snd (filter (\<lambda>z. ?f z = k) (zip x y)))))
      = documented_scores (calc_nc s0) (condition s0) x y k" for k
    by (simp add: documented_scores_def case_prod_unfold)
  have l: "category_loop (calc_nc s0) x y ?cm (np_unique ?cm) Map.empty =
      (None, (\<lambda>k. if k \<in> set ?cm
                   then Some (documented_scores (calc_nc s0) (condition s0) x y k) else None))"
    unfolding category_loop_fresh [OF assms(2)] doc by (simp add: np_unique_props)
  have nl: "\<not> length x < length y" using assms(2) by simp
  show ?thesis
    unfolding IcpClassifier_calibrate_def calibrate_def h u Let_def
    using assms(1) nl l by simp
qed

lemma length_documented_scores:
  assumes "\<forall>xs ys. length (nc xs ys) = length xs"
  shows "length (documented_scores nc cond x y k)
       = length (filter (\<lambda>c. c = k) (map (\<lambda>(xi, yi). cond (xi, Some yi)) (zip x y)))"
  using assms by (simp add: documented_scores_def length_filter_map case_prod_unfold comp_def)

lemma conditional_replace_partition:
  assumes "conditional s0" and "length x = length y"
    and "\<forall>xs ys. length (calc_nc s0 xs ys) = length xs"
  shows "score_total (snd (IcpClassifier_calibrate x y False s0)) = length y"
    and "cal_size (snd (IcpClassifier_calibrate x y False s0)) = length y"
proof -
  let ?cm = "map (\<lambda>(xi, yi). condition s0 (xi, Some yi)) (zip x y)"
  have m: "map (\<lambda>k. case (if k \<in> set ?cm
                then Some (documented_scores (calc_nc s0) (condition s0) x y k) else None) of
              None \<Rightarrow> 0 | Some v \<Rightarrow> length v) (np_unique ?cm)
      = map (\<lambda>k. length (filter (\<lambda>c. c = k) ?cm)) (np_unique ?cm)"
    by (rule map_cong) (simp_all add: np_unique_props length_documented_scores [OF assms(3)])
  let ?s = "snd (IcpClassifier_calibrate x y False s0)"
  have sel: "categories ?s = Some (np_unique ?cm)"
    "cal_scores ?s = Some (DefaultDict (\<lambda>k. if k \<in> set ?cm
        then Some (documented_scores (calc_nc s0) (condition s0) x y k) else None))"
    unfolding classifier_calibrate_conditional_replace [OF assms(1,2)] by simp_all
  have "score_total ?s = sum_list (map (\<lambda>k. length (filter (\<lambda>c. c = k) ?cm)) (np_unique ?cm))"
    by (simp only: score_total_def sel prod.case option.case table_map.simps m)
  also have "\<dots> = length ?cm" by (rule sum_category_sizes)
  also have "\<dots> = length y" using assms(2) by simp
  finally show "score_total ?s = length y" .
  show "cal_size ?s = length y"
    unfolding classifier_calibrate_conditional_replace [OF assms(1,2)]
    by (simp add: cal_size_def)
qed

lemma nonconditional_partition:
  assumes "\<not> conditional s0" and "length x = length y"
    and "\<forall>xs ys. length (calc_nc s0 xs ys) = length xs"
  shows "score_total (snd (IcpClassifier_calibrate x y False s0)) = length y"
    and "cal_size (snd (IcpClassifier_calibrate x y False s0)) = length y"
  unfolding classifier_calibrate_replace [OF assms(1)]
  using assms(2,3) by (simp_all add: score_total_def cal_size_def)

section \<open>Incremental calibration of a conditional predictor\<close>

text \<open>
  C1: a \<^verbatim>\<open>calibrate\<close> call on a conditional predictor computes the category of every
  example of the whole calibration set and stores, for each category, the scores of
  exactly the examples of that category, also when \<^verbatim>\<open>increment=True\<close> merges the batch
  with a stored set.  The code does not do this for an incremental call; here it is
  evaluated at one.  A conditional classifier (category = label) is calibrated on
  inputs 0.1, 0.2 with labels 0, 1 and then incrementally on input 0.3 with label 1.
  The merged calibration set has three examples, of categories 0, 1, 1.  The code maps
  only the new batch to categories (\<open>[1]\<close>) and indexes the merged set with a mask of
  length 1, which raises IndexError; the score table is left empty.  The documented
  tables are \<open>[0.1]\<close> for category 0 and \<open>[0.3, 0.2]\<close> for category 1.
\<close>

theorem C1_conditional_increment_evaluated:
  "fst (IcpClassifier_calibrate [3/10] [1] True mondrian_classifier) = Some IndexError
   \<and> cal_x (snd (IcpClassifier_calibrate [3/10] [1] True mondrian_classifier))
       = Some [1/10, 2/10, 3/10]
   \<and> cal_y (snd (IcpClassifier_calibrate [3/10] [1] True mondrian_classifier))
       = Some [0, 1, 1]
   \<and> categories (snd (IcpClassifier_calibrate [3/10] [1] True mondrian_classifier))
       = Some [1]
   \<and> cal_scores (snd (IcpClassifier_calibrate [3/10] [1] True mondrian_classifier))
       = Some (DefaultDict Map.empty)
   \<and> documented_scores score_by_input category_by_label [1/10, 2/10, 3/10] [0, 1, 1] 0 = [1/10]
   \<and> documented_scores score_by_input category_by_label [1/10, 2/10, 3/10] [0, 1, 1] 1
       = [3/10, 2/10]"
  by (simp add: mondrian_classifier_def documented_scores_def icp_unfold)

text \<open>
  C4: after every \<^verbatim>\<open>calibrate\<close> call the sizes of the per-category score arrays add
  up to the size of the calibration set.  The code does not keep this for an
  incremental call on a conditional predictor; here it is evaluated at one.  The same
  conditional classifier, calibrated on two examples, is recalibrated incrementally
  with an empty batch.  The call returns normally, the
  calibration set keeps its two examples, and the category list and the score table
  are empty: the stored score arrays hold 0 scores for a calibration set of size 2.
\<close>

theorem C4_partition_evaluated:
  "fst (IcpClassifier_calibrate [] [] True mondrian_classifier) = None
   \<and> cal_x (snd (IcpClassifier_calibrate [] [] True mondrian_classifier)) = Some [1/10, 2/10]
   \<and> cal_y (snd (IcpClassifier_calibrate [] [] True mondrian_classifier)) = Some [0, 1]
   \<and> categories (snd (IcpClassifier_calibrate [] [] True mondrian_classifier)) = Some []
   \<and> cal_scores (snd (IcpClassifier_calibrate [] [] True mondrian_classifier))
       = Some (DefaultDict Map.empty)
   \<and> score_total (snd (IcpClassifier_calibrate [] [] True mondrian_classifier)) = 0
   \<and> cal_size (snd (IcpClassifier_calibrate [] [] True mondrian_classifier)) = 2"
  by (simp add: mondrian_classifier_def score_total_def cal_size_def icp_unfold)

text \<open>
  C5: calibrating once on the concatenation of two batches gives the same calibration
  set, score tables and (without smoothing) p-values as calibrating on the first batch
  and then incrementally on the second.  For a non-conditional classifier this is
  \<open>nonconditional_incremental_equivalence\<close>; for a conditional one the code does not do
  it, and here it is evaluated at such an input.  Calibrating the conditional
  classifier once on the three examples (0.1, 0), (0.2, 1), (0.3, 1) returns normally with the score tables
  \<open>[0.1]\<close> and \<open>[0.3, 0.2]\<close>, and the test input 0.25 gets the p-values 1/2 and 2/3.
  Calibrating on the first two examples and then incrementally on the third raises
  IndexError and leaves an empty table, from which the same test input gets the
  p-values 1 and 1.
\<close>

theorem C5_incremental_evaluated:
  "fst (IcpClassifier_calibrate [1/10, 2/10, 3/10] [0, 1, 1] False
          (IcpClassifier_init score_by_input (Some category_by_label) False)) = None
   \<and> cal_scores (snd (IcpClassifier_calibrate [1/10, 2/10, 3/10] [0, 1, 1] False
          (IcpClassifier_init score_by_input (Some category_by_label) False)))
       = Some (DefaultDict [0 \<mapsto> [1/10], 1 \<mapsto> [3/10, 2/10]])
   \<and> fst (IcpClassifier_predict zero_draw [25/100] None
        (snd (IcpClassifier_calibrate [1/10, 2/10, 3/10] [0, 1, 1] False
          (IcpClassifier_init score_by_input (Some category_by_label) False))))
       = Inr (PValues [[1/2, 2/3]])
   \<and> fst (IcpClassifier_calibrate [3/10] [1] True mondrian_classifier) = Some IndexError
   \<and> cal_scores (snd (IcpClassifier_calibrate [3/10] [1] True mondrian_classifier))
       = Some (DefaultDict Map.empty)
   \<and> fst (IcpClassifier_predict zero_draw [25/100] None
        (snd (IcpClassifier_calibrate [3/10] [1] True mondrian_classifier)))
       = Inr (PValues [[1, 1]])"
  by (simp add: mondrian_classifier_def icp_unfold)

section \<open>The p-value formula\<close>

text \<open>
  C3: on a calibrated classifier, for test example \<open>j\<close> and class column \<open>i\<close>, with
  \<open>stored\<close> the score array of the pair's category and \<open>nc\<close> the test score, the stored
  array is sorted, the two binary searches return the leftmost and the rightmost
  insertion point of \<open>nc\<close>, \<open>n_gt\<close> is the number of calibration scores strictly greater
  than \<open>nc\<close>, \<open>n_eq\<close> is the number of calibration scores equal to \<open>nc\<close> plus 1, and
  the entry \<open>p[j, i]\<close> that \<^verbatim>\<open>predict\<close> returns is \<open>n_gt / (n_cal + 1)\<close> plus
  \<open>n_eq * U / (n_cal + 1)\<close> with smoothing (\<open>U\<close> the number drawn for the pair) and plus
  \<open>n_eq / (n_cal + 1)\<close> without.
\<close>

theorem C3_p_value_formula:
  assumes "IcpClassifier_calibrate xc yc increment s0 = (None, s)"
    and "classes s = Some cls" and "cal_scores s = Some t"
    and "fst (IcpClassifier_predict u x None s) = Inr (PValues p)"
    and "j < length x" and "i < length cls"
    and "j < length (calc_nc s x (replicate (length x) (cls ! i)))"
  shows "let stored = stored_scores t (condition s (x ! j, Some (cls ! i)));
             nc = calc_nc s x (replicate (length x) (cls ! i)) ! j;
             n_cal = length stored;
             n_gt = length (filter (\<lambda>a. nc < a) stored);
             n_eq = length (filter (\<lambda>a. a = nc) stored) + 1
         in sorted (rev stored)
          \<and> searchsorted (rev stored) nc Left = length (filter (\<lambda>a. a < nc) stored)
          \<and> searchsorted (rev stored) nc Right = length (filter (\<lambda>a. a \<le> nc) stored)
          \<and> n_cal_of stored = int n_cal
          \<and> n_gt_of stored nc = int n_gt
          \<and> n_eq_of stored nc = int n_eq
          \<and> p ! j ! i =
              (if smoothing s
               then real n_gt / real (n_cal + 1) + (real n_eq * u j i) / real (n_cal + 1)
               else real n_gt / real (n_cal + 1) + real n_eq / real (n_cal + 1))"
proof -
  let ?stored = "stored_scores t (condition s (x ! j, Some (cls ! i)))"
  let ?nc = "calc_nc s x (replicate (length x) (cls ! i)) ! j"
  have s: "s = snd (calibrate classifier_calibrate_hook xc yc increment s0)"
    and ok: "fst (calibrate classifier_calibrate_hook xc yc increment s0) = None"
    using assms(1) by (simp_all add: IcpClassifier_calibrate_def)
  have srt: "sorted (rev ?stored)"
    using calibrate_sorted [OF ok] assms(3) unfolding s by blast
  note rc = rank_counts [OF srt, of ?nc]
  have ncal: "n_cal_of ?stored = int (length ?stored)" by (simp add: n_cal_of_def)
  have ent: "p ! j ! i = p_value (smoothing s) (u j i) ?stored ?nc"
    using predict_entry(3) [OF assms(4) assms(2) assms(3) assms(5) assms(6) assms(7)] .
  have pv: "p ! j ! i =
      (if smoothing s
       then real (length (filter (\<lambda>a. ?nc < a) ?stored)) / real (length ?stored + 1)
            + (real (length (filter (\<lambda>a. a = ?nc) ?stored) + 1) * u j i) / real (length ?stored + 1)
       else real (length (filter (\<lambda>a. ?nc < a) ?stored)) / real (length ?stored + 1)
            + real (length (filter (\<lambda>a. a = ?nc) ?stored) + 1) / real (length ?stored + 1))"
    unfolding ent p_value_def rc(3) rc(4) ncal by (simp add: ac_simps)
  show ?thesis
    unfolding Let_def using srt rc ncal pv by simp
qed

text \<open>
  Witness of C3: the scenario classifier, test input 0.4, the only example and the only
  class; the entry is 1/5 + 3/5.
\<close>

theorem C3_p_value_formula_witness:
  "IcpClassifier_calibrate [1/10, 4/10, 9/10, 4/10] [0, 0, 0, 0] False
      (IcpClassifier_init score_by_input (None :: (real \<times> int option \<Rightarrow> int) option) False)
     = (None, scenario_classifier)
   \<and> classes scenario_classifier = Some [0]
   \<and> cal_scores scenario_classifier = Some (Dict [0 \<mapsto> [9/10, 4/10, 4/10, 1/10]])
   \<and> fst (IcpClassifier_predict zero_draw [4/10] None scenario_classifier) = Inr (PValues [[8/10]])
   \<and> (0::nat) < length [4/10 :: real] \<and> (0::nat) < length [0 :: int]
   \<and> 0 < length (calc_nc scenario_classifier [4/10] (replicate (length [4/10 :: real]) ([0] ! 0)))
   \<and> [[8/10]] ! 0 ! 0 = (1 / 5 + 3 / 5 :: real)"
proof -
  have h1: "IcpClassifier_calibrate [1/10, 4/10, 9/10, 4/10] [0, 0, 0, 0] False
      (IcpClassifier_init score_by_input (None :: (real \<times> int option \<Rightarrow> int) option) False)
     = (None, scenario_classifier)"
    by (simp add: scenario_classifier_def prod_eq_iff icp_unfold)
  have h2: "classes scenario_classifier = Some [0]"
    by (simp add: scenario_classifier_def icp_unfold)
  have h3: "cal_scores scenario_classifier = Some (Dict [0 \<mapsto> [9/10, 4/10, 4/10, 1/10]])"
    by (simp add: scenario_classifier_def icp_unfold)
  have h4: "fst (IcpClassifier_predict zero_draw [4/10] None scenario_classifier) = Inr (PValues [[8/10]])"
    by (simp add: scenario_classifier_def icp_unfold)
  have h5: "(0::nat) < length [4/10 :: real]" and h6: "(0::nat) < length [0 :: int]" by simp_all
  have h7: "0 < length (calc_nc scenario_classifier [4/10] (replicate (length [4/10 :: real]) ([0] ! 0)))"
    by (simp add: scenario_classifier_def icp_unfold)
  from C3_p_value_formula [OF h1 h2 h3 h4 h5 h6 h7]
  have "[[8/10]] ! 0 ! 0 = (1 / 5 + 3 / 5 :: real)"
    by (simp add: Let_def stored_scores_def scenario_classifier_def icp_unfold)
  with h1 h2 h3 h4 h5 h6 h7 show ?thesis by blast
qed

section \<open>Monotonicity in the significance\<close>

text \<open>
  C7: for one classifier state and one test batch, and two significance levels
  \<open>a1 < a2\<close>, every label that \<^verbatim>\<open>predict\<close> includes at \<open>a2\<close> is included at \<open>a1\<close>.
  Without smoothing the two calls may draw different random numbers; with smoothing
  the two calls are compared on the same draws.
\<close>

theorem C7_monotone:
  assumes "a1 < a2" and "\<not> smoothing s \<or> u1 = u2"
    and "fst (IcpClassifier_predict u1 x (Some a1) s) = Inr (Labels L1)"
    and "fst (IcpClassifier_predict u2 x (Some a2) s) = Inr (Labels L2)"
    and "j < length L2" and "i < length (L2 ! j)" and "L2 ! j ! i"
  shows "j < length L1 \<and> i < length (L1 ! j) \<and> L1 ! j ! i"
proof -
  from predict_labels_form [OF assms(3)] obtain p1 where
    p1: "fst (IcpClassifier_predict u1 x None s) = Inr (PValues p1)"
    and l1: "L1 = map (map (\<lambda>v. a1 < v)) p1" by blast
  from predict_labels_form [OF assms(4)] obtain p2 where
    p2: "fst (IcpClassifier_predict u2 x None s) = Inr (PValues p2)"
    and l2: "L2 = map (map (\<lambda>v. a2 < v)) p2" by blast
  have "fst (IcpClassifier_predict u2 x None s) = fst (IcpClassifier_predict u1 x None s)"
    using predict_repeat(1) [OF assms(2), of x None "fst (IcpClassifier_predict u1 x None s)"
        "snd (IcpClassifier_predict u1 x None s)"] by simp
  then have same: "p2 = p1" using p1 p2 by simp
  have j: "j < length p1" using assms(5) l2 same by simp
  have i: "i < length (p1 ! j)" using assms(6) l2 same j by simp
  have "a2 < p1 ! j ! i" using assms(7) l2 same j i by simp
  then have "a1 < p1 ! j ! i" using assms(1) by simp
  then show ?thesis using l1 j i by simp
qed

text \<open>
  Witness of C7: the scenario classifier at the levels 0.5 and 0.7; the label is
  included at both.
\<close>

theorem C7_monotone_witness:
  "(5/10 :: real) < 7/10
   \<and> \<not> smoothing scenario_classifier
   \<and> fst (IcpClassifier_predict zero_draw [4/10] (Some (5/10)) scenario_classifier) = Inr (Labels [[True]])
   \<and> fst (IcpClassifier_predict zero_draw [4/10] (Some (7/10)) scenario_classifier) = Inr (Labels [[True]])
   \<and> (0::nat) < length [[True]] \<and> (0::nat) < length ([[True]] ! 0) \<and> [[True]] ! 0 ! 0"
proof -
  have h1: "(5/10 :: real) < 7/10" by simp
  have h2: "\<not> smoothing scenario_classifier"
    by (simp add: scenario_classifier_def icp_unfold)
  then have h2': "\<not> smoothing scenario_classifier \<or> zero_draw = zero_draw" by simp
  have h3: "fst (IcpClassifier_predict zero_draw [4/10] (Some (5/10)) scenario_classifier) = Inr (Labels [[True]])"
    by (simp add: scenario_classifier_def icp_unfold)
  have h4: "fst (IcpClassifier_predict zero_draw [4/10] (Some (7/10)) scenario_classifier) = Inr (Labels [[True]])"
    by (simp add: scenario_classifier_def icp_unfold)
  have h5: "(0::nat) < length [[True]]" and h6: "(0::nat) < length ([[True]] ! 0)"
    and h7: "[[True]] ! 0 ! 0" by simp_all
  from C7_monotone [OF h1 h2' h3 h4 h5 h6 h7] h1 h2 h3 h4 show ?thesis by blast
qed

section \<open>Range and determinism of the p-values\<close>

text \<open>
  C8: every entry of a p-value matrix that \<^verbatim>\<open>predict\<close> returns lies in [0, 1], in
  every state, with smoothing (for every draw of the numbers in [0, 1)) or without;
  and without smoothing a second call on the same inputs returns the same matrix,
  both from the same state and from the state that the first call left (the first
  call may have added empty entries to the score table).
\<close>

theorem C8_range_and_determinism:
  assumes "\<forall>j i. 0 \<le> u j i \<and> u j i < 1"
    and "IcpClassifier_predict u x None s = (Inr (PValues p), s')"
  shows "(\<forall>row\<in>set p. \<forall>v\<in>set row. 0 \<le> v \<and> v \<le> 1)
       \<and> (\<not> smoothing s \<longrightarrow>
            (\<forall>u'. fst (IcpClassifier_predict u' x None s) = Inr (PValues p)
                \<and> fst (IcpClassifier_predict u' x None s') = Inr (PValues p)))"
proof -
  have u1: "\<forall>j i. 0 \<le> u j i \<and> u j i \<le> 1" using assms(1) by (simp add: less_imp_le)
  have "fst (IcpClassifier_predict u x None s) = Inr (PValues p)" using assms(2) by simp
  from predict_range [OF u1 this]
  have rng: "\<forall>row\<in>set p. \<forall>v\<in>set row. 0 \<le> v \<and> v \<le> 1" .
  have det: "\<not> smoothing s \<longrightarrow>
            (\<forall>u'. fst (IcpClassifier_predict u' x None s) = Inr (PValues p)
                \<and> fst (IcpClassifier_predict u' x None s') = Inr (PValues p))"
  proof (intro impI allI)
    fix u' assume "\<not> smoothing s"
    then have "\<not> smoothing s \<or> u = u'" by simp
    from predict_repeat [OF this assms(2)]
    show "fst (IcpClassifier_predict u' x None s) = Inr (PValues p)
        \<and> fst (IcpClassifier_predict u' x None s') = Inr (PValues p)" by simp
  qed
  from rng det show ?thesis by blast
qed

text \<open>
  Witness of C8: the split classifier on test input 0.7, whose category 1 has no stored
  scores.  The first call returns \<open>[[1, 1]]\<close> and adds an empty array for category 1
  to the table; the second call, on the changed object, returns \<open>[[1, 1]]\<close> again.
\<close>

theorem C8_range_and_determinism_witness:
  "(\<forall>j i. 0 \<le> zero_draw j i \<and> zero_draw j i < 1)
   \<and> IcpClassifier_predict zero_draw [7/10] None split_classifier
       = (Inr (PValues [[1, 1]]), snd (IcpClassifier_predict zero_draw [7/10] None split_classifier))
   \<and> cal_scores split_classifier = Some (DefaultDict [0 \<mapsto> [2/10, 1/10]])
   \<and> cal_scores (snd (IcpClassifier_predict zero_draw [7/10] None split_classifier))
       = Some (DefaultDict [0 \<mapsto> [2/10, 1/10], 1 \<mapsto> []])
   \<and> \<not> smoothing split_classifier
   \<and> list_all (list_all (\<lambda>v. 0 \<le> v \<and> v \<le> 1)) [[1, 1 :: real]]
   \<and> fst (IcpClassifier_predict zero_draw [7/10] None
           (snd (IcpClassifier_predict zero_draw [7/10] None split_classifier)))
       = Inr (PValues [[1, 1]])"
proof -
  have h1: "\<forall>j i. 0 \<le> zero_draw j i \<and> zero_draw j i < 1" by simp
  have h2: "IcpClassifier_predict zero_draw [7/10] None split_classifier
       = (Inr (PValues [[1, 1]]), snd (IcpClassifier_predict zero_draw [7/10] None split_classifier))"
    by (simp add: split_classifier_def prod_eq_iff icp_unfold)
  have e1: "cal_scores split_classifier = Some (DefaultDict [0 \<mapsto> [2/10, 1/10]])"
    by (simp add: split_classifier_def icp_unfold)
  have e2: "cal_scores (snd (IcpClassifier_predict zero_draw [7/10] None split_classifier))
       = Some (DefaultDict [0 \<mapsto> [2/10, 1/10], 1 \<mapsto> []])"
    by (simp add: split_classifier_def icp_unfold)
  have e3: "\<not> smoothing split_classifier"
    by (simp add: split_classifier_def icp_unfold)
  note c = C8_range_and_determinism [OF h1 h2]
  from c have rng: "list_all (list_all (\<lambda>v. 0 \<le> v \<and> v \<le> 1)) [[1, 1 :: real]]"
    unfolding list_all_iff by blast
  from c e3 have rep: "fst (IcpClassifier_predict zero_draw [7/10] None
           (snd (IcpClassifier_predict zero_draw [7/10] None split_classifier)))
       = Inr (PValues [[1, 1]])" by blast
  from rng rep h1 h2 e1 e2 e3 show ?thesis by blast
qed

section \<open>A category without stored scores\<close>

text \<open>
  C10: on a conditional classifier, when the category of the pair (test example \<open>j\<close>,
  class \<open>i\<close>) has no stored score array, reading the table yields the empty array
  (\<open>n_cal = 0\<close>); without smoothing \<^verbatim>\<open>predict\<close> returns a matrix whose entry for the
  pair is exactly 1, and at every significance below 1 it marks the label included.
  The scorer returns one score per test example.
\<close>

theorem C10_unseen_category:
  assumes "conditional s0"
    and "IcpClassifier_calibrate xc yc increment s0 = (None, s)"
    and "classes s = Some cls" and "cal_scores s = Some t"
    and "table_map t (condition s (x ! j, Some (cls ! i))) = None"
    and "j < length x" and "i < length cls" and "\<not> smoothing s"
    and "\<forall>c. length (calc_nc s x (replicate (length x) c)) = length x"
  shows "fst (table_get t (condition s (x ! j, Some (cls ! i)))) = Inr []
       \<and> n_cal_of [] = 0
       \<and> (\<exists>p. fst (IcpClassifier_predict u x None s) = Inr (PValues p) \<and> p ! j ! i = 1)
       \<and> (\<forall>sg<1. \<exists>L. fst (IcpClassifier_predict u x (Some sg) s) = Inr (Labels L) \<and> L ! j ! i)"
proof -
  let ?k = "condition s (x ! j, Some (cls ! i))"
  have s: "s = snd (calibrate classifier_calibrate_hook xc yc increment s0)"
    and ok: "fst (calibrate classifier_calibrate_hook xc yc increment s0) = None"
    using assms(2) by (simp_all add: IcpClassifier_calibrate_def)
  have cnd: "conditional (classifier_calibrate_hook xc yc increment s0)"
    using assms(1) by (simp add: classifier_calibrate_hook_def update_classes_fields)
  from calibrate_table [OF ok] cnd assms(4) obtain m where t: "t = DefaultDict m"
    unfolding s by auto
  have mk: "m ?k = None" using assms(5) t by simp
  have get: "fst (table_get t ?k) = Inr []" using t mk by simp
  have st: "stored_scores t ?k = []" using assms(5) by (simp add: stored_scores_def)
  have len: "\<forall>c. length (calc_nc s x (replicate (length x) c)) \<le> length x"
    using assms(9) by simp
  from calibrated_predict_total [OF assms(2) _ len, of u] assms(1)
  obtain p where p: "fst (IcpClassifier_predict u x None s) = Inr (PValues p)" by blast
  have jl: "j < length (calc_nc s x (replicate (length x) (cls ! i)))"
    using assms(6,9) by simp
  note pe = predict_entry [OF p assms(3) assms(4) assms(6) assms(7) jl]
  have one: "p ! j ! i = 1"
    using pe(3) st assms(8) by (simp add: p_value_empty)
  have lab: "\<forall>sg<1. \<exists>L. fst (IcpClassifier_predict u x (Some sg) s) = Inr (Labels L) \<and> L ! j ! i"
  proof (intro allI impI)
    fix sg :: real assume sg: "sg < 1"
    have "fst (IcpClassifier_predict u x (Some sg) s) = Inr (Labels (map (map (\<lambda>v. sg < v)) p))"
      using classifier_labels_of_pvalues [OF p] .
    moreover have "map (map (\<lambda>v. sg < v)) p ! j ! i"
      using pe(1,2) assms(6,7) one sg by simp
    ultimately show "\<exists>L. fst (IcpClassifier_predict u x (Some sg) s) = Inr (Labels L) \<and> L ! j ! i"
      by blast
  qed
  show ?thesis using get one p lab by (auto simp: n_cal_of_def)
qed

text \<open>
  Witness of C10: the split classifier, test input 0.7 and class 1; the pair's
  category 1 has no stored scores, the p-value is 1 and the label is included at
  significance 0.99.
\<close>

theorem C10_unseen_category_witness:
  "conditional (IcpClassifier_init score_by_input (Some category_by_input) False)
   \<and> IcpClassifier_calibrate [1/10, 2/10] [0, 1] False
        (IcpClassifier_init score_by_input (Some category_by_input) False)
       = (None, split_classifier)
   \<and> classes split_classifier = Some [0, 1]
   \<and> cal_scores split_classifier = Some (DefaultDict [0 \<mapsto> [2/10, 1/10]])
   \<and> table_map (DefaultDict [0 \<mapsto> [2/10, 1/10]])
        (condition split_classifier ([7/10] ! 0, Some ([0, 1] ! 1))) = None
   \<and> (0::nat) < length [7/10 :: real] \<and> (1::nat) < length [0, 1 :: int]
   \<and> \<not> smoothing split_classifier
   \<and> (\<forall>c. length (calc_nc split_classifier [7/10] (replicate (length [7/10 :: real]) c))
            = length [7/10 :: real])
   \<and> (\<exists>p. fst (IcpClassifier_predict zero_draw [7/10] None split_classifier) = Inr (PValues p)
          \<and> p ! 0 ! 1 = 1)
   \<and> (\<exists>L. fst (IcpClassifier_predict zero_draw [7/10] (Some (99/100)) split_classifier) = Inr (Labels L)
          \<and> L ! 0 ! 1)"
proof -
  have h1: "conditional (IcpClassifier_init score_by_input (Some category_by_input) False)"
    by (simp add: icp_unfold)
  have h2: "IcpClassifier_calibrate [1/10, 2/10] [0, 1] False
        (IcpClassifier_init score_by_input (Some category_by_input) False)
       = (None, split_classifier)"
    by (simp add: split_classifier_def prod_eq_iff icp_unfold)
  have h3: "classes split_classifier = Some [0, 1]"
    by (simp add: split_classifier_def icp_unfold)
  have h4: "cal_scores split_classifier = Some (DefaultDict [0 \<mapsto> [2/10, 1/10]])"
    by (simp add: split_classifier_def icp_unfold)
  have h5: "table_map (DefaultDict [0 \<mapsto> [2/10, 1/10]])
        (condition split_classifier ([7/10] ! 0, Some ([0, 1] ! 1))) = None"
    by (simp add: split_classifier_def icp_unfold)
  have h6: "(0::nat) < length [7/10 :: real]" and h7: "(1::nat) < length [0, 1 :: int]" by simp_all
  have h8: "\<not> smoothing split_classifier"
    by (simp add: split_classifier_def icp_unfold)
  have h9: "\<forall>c. length (calc_nc split_classifier [7/10] (replicate (length [7/10 :: real]) c))
            = length [7/10 :: real]"
    by (simp add: split_classifier_def icp_unfold)
  note c = C10_unseen_category [OF h1 h2 h3 h4 h5 h6 h7 h8 h9, of zero_draw]
  have "(99/100 :: real) < 1" by simp
  with c have "\<exists>L. fst (IcpClassifier_predict zero_draw [7/10] (Some (99/100)) split_classifier) = Inr (Labels L)
          \<and> L ! 0 ! 1" by blast
  with c h1 h2 h3 h4 h5 h6 h7 h8 h9 show ?thesis by blast
qed

end
